theory Spec2Isabelle
  imports Complex_Main "HOL-Library.List_Lexorder" "HOL-Library.Product_Lexorder"
    "HOL-Library.Multiset"
begin

section \<open>Python strings\<close>

text \<open>
  A Python \<open>str\<close> is a sequence of Unicode code points; it is modelled as a list of
  natural numbers. The library functions the program calls on strings are modelled on the
  following repertoire, on which they agree with CPython (3.8 and later): Basic Latin
  (U+0000 to U+007F), the Unicode white-space characters, U+0130 (capital I with dot
  above), U+0131 (dotless i) and U+0307 (combining dot above) where it follows \<open>i\<close>,
  \<open>I\<close>, U+0130 or another such U+0307. Other code points are passed through unchanged.
\<close>

type_synonym codepoint = nat
type_synonym ustr = "codepoint list"

definition ascii :: "string \<Rightarrow> ustr" where
  "ascii s = map of_char s"

abbreviation CAPITAL_I_WITH_DOT_ABOVE :: codepoint where
  "CAPITAL_I_WITH_DOT_ABOVE \<equiv> 304"

abbreviation SMALL_DOTLESS_I :: codepoint where
  "SMALL_DOTLESS_I \<equiv> 305"

abbreviation COMBINING_DOT_ABOVE :: codepoint where
  "COMBINING_DOT_ABOVE \<equiv> 775"

abbreviation SPACE :: codepoint where
  "SPACE \<equiv> 32"

text \<open>\<open>str.isspace\<close> for one character: U+0009 to U+000D, U+001C to U+0020, U+0085,
  U+00A0, U+1680, U+2000 to U+200A, U+2028, U+2029, U+202F, U+205F, U+3000.\<close>

definition isspace :: "codepoint \<Rightarrow> bool" where
  "isspace c \<longleftrightarrow>
     (9 \<le> c \<and> c \<le> 13) \<or> (28 \<le> c \<and> c \<le> 32) \<or> c = 133 \<or> c = 160 \<or> c = 5760 \<or>
     (8192 \<le> c \<and> c \<le> 8202) \<or> c = 8232 \<or> c = 8233 \<or> c = 8239 \<or> c = 8287 \<or> c = 12288"

text \<open>\<open>s.strip()\<close>: white space removed at both ends.\<close>

definition strip :: "ustr \<Rightarrow> ustr" where
  "strip s = rev (dropWhile isspace (rev (dropWhile isspace s)))"

text \<open>\<open>s.split()\<close>: the maximal runs of characters that are not white space. The first
  argument is the word read so far.\<close>

fun split_from :: "ustr \<Rightarrow> ustr \<Rightarrow> ustr list" where
  "split_from w [] = (if w = [] then [] else [w])"
| "split_from w (c # cs) =
     (if isspace c then (if w = [] then split_from [] cs else w # split_from [] cs)
      else split_from (w @ [c]) cs)"

definition split :: "ustr \<Rightarrow> ustr list" where
  "split s = split_from [] s"

text \<open>\<open>sep.join(words)\<close>.\<close>

fun join :: "ustr \<Rightarrow> ustr list \<Rightarrow> ustr" where
  "join sep [] = []"
| "join sep [w] = w"
| "join sep (w # v # ws) = w @ sep @ join sep (v # ws)"

definition startswith :: "ustr \<Rightarrow> ustr \<Rightarrow> bool" where
  "startswith s p \<longleftrightarrow> take (length p) s = p"

text \<open>\<open>s.replace(old, new)\<close> for one-character \<open>old\<close> and \<open>new\<close>.\<close>

definition replace :: "codepoint \<Rightarrow> codepoint \<Rightarrow> ustr \<Rightarrow> ustr" where
  "replace old new s = map (\<lambda>c. if c = old then new else c) s"

subsection \<open>Case mappings\<close>

text \<open>\<open>str.lower\<close>: the full lower-case mapping. U+0130 lowers to \<open>i\<close> followed by
  U+0307; U+0131 is already lower case.\<close>

definition lower_cp :: "codepoint \<Rightarrow> ustr" where
  "lower_cp c =
     (if 65 \<le> c \<and> c \<le> 90 then [c + 32]
      else if c = CAPITAL_I_WITH_DOT_ABOVE then [105, COMBINING_DOT_ABOVE]
      else [c])"

definition lower :: "ustr \<Rightarrow> ustr" where
  "lower s = concat (map lower_cp s)"

text \<open>\<open>str.casefold\<close>: the full case folding of the Unicode standard, which is not
  locale-sensitive: \<open>I\<close> folds to \<open>i\<close>, U+0130 folds to \<open>i\<close> followed by U+0307 and
  U+0131 folds to itself.\<close>

definition casefold_cp :: "codepoint \<Rightarrow> ustr" where
  "casefold_cp c =
     (if 65 \<le> c \<and> c \<le> 90 then [c + 32]
      else if c = CAPITAL_I_WITH_DOT_ABOVE then [105, COMBINING_DOT_ABOVE]
      else [c])"

definition casefold :: "ustr \<Rightarrow> ustr" where
  "casefold s = concat (map casefold_cp s)"

text \<open>The title-case mapping of one character; U+0131 maps to the capital \<open>I\<close>.\<close>

definition title_cp :: "codepoint \<Rightarrow> ustr" where
  "title_cp c =
     (if 97 \<le> c \<and> c \<le> 122 then [c - 32]
      else if c = SMALL_DOTLESS_I then [73]
      else [c])"

text \<open>\<open>str.capitalize\<close>: the first character in title case, the rest in lower case.\<close>

fun capitalize :: "ustr \<Rightarrow> ustr" where
  "capitalize [] = []"
| "capitalize (c # cs) = title_cp c @ lower cs"

subsection \<open>Unicode normalization\<close>

text \<open>The compatibility mapping of one character: the space characters with a
  compatibility decomposition map to U+0020.\<close>

definition compat_cp :: "codepoint \<Rightarrow> codepoint" where
  "compat_cp c =
     (if c = 160 \<or> (8192 \<le> c \<and> c \<le> 8202) \<or> c = 8239 \<or> c = 8287 \<or> c = 12288
      then SPACE else c)"

text \<open>\<open>unicodedata.normalize("NFKC", s)\<close>: compatibility decomposition followed by
  canonical composition. U+0130 decomposes to \<open>I\<close> followed by U+0307 and is composed
  again; \<open>I\<close> followed by U+0307 composes to U+0130; \<open>i\<close> followed by U+0307 has no
  composed form.\<close>

fun nfkc :: "ustr \<Rightarrow> ustr" where
  "nfkc [] = []"
| "nfkc [c] = [compat_cp c]"
| "nfkc (c # d # cs) =
     (if c = 73 \<and> d = COMBINING_DOT_ABOVE then CAPITAL_I_WITH_DOT_ABOVE # nfkc cs
      else compat_cp c # nfkc (d # cs))"

section \<open>Customers\<close>

record customer =
  name :: ustr
  phone :: ustr
  address :: ustr

text \<open>\<open>Customer(name=n)\<close>: phone and address default to the empty string.\<close>

definition Customer :: "ustr \<Rightarrow> customer" where
  "Customer n = \<lparr>name = n, phone = [], address = []\<rparr>"

definition normalize_for_comparison :: "ustr \<Rightarrow> ustr" where
  "normalize_for_comparison nm =
     (let nm1 = nfkc nm;
          nm2 = join [SPACE] (split (strip nm1))
      in casefold nm2)"

definition turkish_title :: "ustr \<Rightarrow> ustr" where
  "turkish_title word =
     (let w = lower (strip word)
      in if startswith w (ascii ''i'') then [CAPITAL_I_WITH_DOT_ABOVE] @ drop 1 w
         else capitalize w)"

definition format_for_display :: "ustr \<Rightarrow> ustr" where
  "format_for_display nm = join [SPACE] (map turkish_title (split (strip nm)))"

section \<open>Files, the diagnostic log and the dialogs\<close>

text \<open>
  A path is the list of its components, relative to the working directory of the process;
  the last component is the file name. A file holds either the JSON array that
  \<open>json.dump\<close> writes for a list of customers, a truncated such array (what an
  interrupted \<open>json.dump\<close> leaves behind), or a text that is not a JSON document
  (every receipt is one: it starts with \<open>===\<close>).
\<close>

type_synonym path = "ustr list"

datatype file_content = Json "customer list" | JsonPrefix "customer list" | Text ustr

definition CUSTOMER_FILE :: path where
  "CUSTOMER_FILE = [ascii ''customers.json'']"

text \<open>One entry of the log file for each \<open>logging.exception\<close> call of the source.\<close>

datatype log_entry =
    Log_load_customers_failed
  | Log_save_customers_failed
  | Log_calculate_total_failed
  | Log_atomic_write_failed
  | Log_printing_failed
  | Log_print_receipt_failed

text \<open>What the operating system does with one attempt to open a file for writing and
  write a text to it: it succeeds, the open fails (the file is untouched), or the write
  fails after some characters (the file was truncated by the open and holds a prefix).\<close>

datatype write_outcome = WriteOk | OpenFails | WriteFails nat

text \<open>The message boxes of the source, one constructor for each call.\<close>

datatype dialog =
    Info_customer_name_empty
  | Info_customer_exists
  | Info_select_customer_to_delete
  | Info_form_cleared
  | Warning_customer_name_empty
  | Warning_weight_not_positive
  | Warning_price_not_positive
  | Info_receipt_saved path
  | Error_unexpected

datatype pyval = PyNone | PyBool bool

section \<open>The application\<close>

record app =
  customers :: "customer list"
  fs :: "path \<rightharpoonup> file_content"
  log :: "log_entry list"
  dialogs :: "dialog list"
  listbox :: "ustr list"
  customer_name_var :: ustr
  new_customer_var :: ustr
  item_type_var :: ustr
  piece_count_var :: ustr
  weight_var :: ustr
  price_per_kg_var :: ustr
  total_var :: ustr
  role_var :: ustr
  last_save_dir :: "path option"

definition load_customers :: "app \<Rightarrow> customer list \<times> app" where
  "load_customers s =
     (case fs s CUSTOMER_FILE of
        None \<Rightarrow> ([], s)
      | Some (Json cs) \<Rightarrow> (cs, s)
      | Some _ \<Rightarrow> ([], s\<lparr>log := log s @ [Log_load_customers_failed]\<rparr>))"

definition save_customers :: "write_outcome \<Rightarrow> customer list \<Rightarrow> app \<Rightarrow> app" where
  "save_customers io cs s =
     (case io of
        WriteOk \<Rightarrow> s\<lparr>fs := (fs s)(CUSTOMER_FILE \<mapsto> Json cs)\<rparr>
      | OpenFails \<Rightarrow> s\<lparr>log := log s @ [Log_save_customers_failed]\<rparr>
      | WriteFails n \<Rightarrow>
          s\<lparr>fs := (fs s)(CUSTOMER_FILE \<mapsto> JsonPrefix cs),
            log := log s @ [Log_save_customers_failed]\<rparr>)"

definition refresh_listbox :: "app \<Rightarrow> app" where
  "refresh_listbox s =
     s\<lparr>listbox := map name (sort_key (\<lambda>c. lower (name c)) (customers s))\<rparr>"

text \<open>\<open>self.listbox.get(i)\<close>; Tk answers the empty string for an index out of range.\<close>

definition listbox_get :: "app \<Rightarrow> nat \<Rightarrow> ustr" where
  "listbox_get s i = (if i < length (listbox s) then listbox s ! i else [])"

definition add_new_customer :: "write_outcome \<Rightarrow> app \<Rightarrow> app" where
  "add_new_customer io s =
     (let raw = new_customer_var s;
          normalized = normalize_for_comparison raw
      in if normalized = [] then s\<lparr>dialogs := dialogs s @ [Info_customer_name_empty]\<rparr>
         else
           let existing_keys = map (\<lambda>c. normalize_for_comparison (name c)) (customers s)
           in if normalized \<in> set existing_keys
              then s\<lparr>dialogs := dialogs s @ [Info_customer_exists]\<rparr>
              else
                let display_name = format_for_display raw;
                    s1 = s\<lparr>customers := customers s @ [Customer display_name]\<rparr>;
                    s2 = save_customers io (customers s1) s1;
                    s3 = s2\<lparr>new_customer_var := []\<rparr>
                in refresh_listbox s3)"

text \<open>The handler of the delete button. \<open>sel\<close> is \<open>self.listbox.curselection()\<close> and
  \<open>confirmed\<close> the answer to the yes/no question. The handler has no \<open>return\<close> with a
  value: Python returns \<open>None\<close> on every path.\<close>

definition remove_selected_customer ::
  "nat list \<Rightarrow> bool \<Rightarrow> write_outcome \<Rightarrow> app \<Rightarrow> pyval \<times> app" where
  "remove_selected_customer sel confirmed io s =
     (if sel = [] then (PyNone, s\<lparr>dialogs := dialogs s @ [Info_select_customer_to_delete]\<rparr>)
      else
        let nm = listbox_get s (hd sel)
        in if confirmed then
             let s1 = s\<lparr>customers :=
                         filter (\<lambda>c. normalize_for_comparison (name c) \<noteq>
                                      normalize_for_comparison nm) (customers s)\<rparr>;
                 s2 = save_customers io (customers s1) s1;
                 s3 = refresh_listbox s2
             in (PyNone, if customer_name_var s3 = nm then s3\<lparr>customer_name_var := []\<rparr> else s3)
           else (PyNone, s))"

text \<open>A state of the application that holds no customer and no file.\<close>

definition empty_app :: app where
  "empty_app =
     \<lparr>customers = [], fs = Map.empty, log = [], dialogs = [], listbox = [],
      customer_name_var = [], new_customer_var = [], item_type_var = [],
      piece_count_var = [], weight_var = [], price_per_kg_var = [],
      total_var = ascii ''0.00'', role_var = [], last_save_dir = None\<rparr>"

text \<open>The operator types \<open>raw\<close> into the entry of the new customer and presses the add
  button.\<close>

definition type_and_add :: "ustr \<Rightarrow> write_outcome \<Rightarrow> app \<Rightarrow> app" where
  "type_and_add raw io s = add_new_customer io (s\<lparr>new_customer_var := raw\<rparr>)"

text \<open>A directory with three entries, two of them with the same normalized name (a
  \<open>customers.json\<close> edited by hand loads as such), and its list box.\<close>

definition ali_veli_ali :: app where
  "ali_veli_ali =
     refresh_listbox (empty_app\<lparr>customers :=
       [Customer (ascii ''Ali''), Customer (ascii ''Veli''), Customer (ascii ''ALI'')]\<rparr>)"

section \<open>Writing a receipt\<close>

datatype py_error = ValueError | KeyError | OSError

text \<open>\<open>s.rfind(c)\<close>: the index of the last occurrence of \<open>c\<close>, or \<open>-1\<close>.\<close>

definition rfind :: "codepoint \<Rightarrow> ustr \<Rightarrow> int" where
  "rfind c s =
     (if c \<in> set s then int (length s) - 1 - int (length (takeWhile (\<lambda>d. d \<noteq> c) (rev s)))
      else - 1)"

text \<open>\<open>pathlib\<close> (POSIX flavour, CPython up to 3.12): the name of a path is its last
  component, the suffix of a path is the part of the name from its last dot, when that dot
  is neither the first nor the last character of the name.\<close>

definition path_name :: "path \<Rightarrow> ustr" where
  "path_name p = (if p = [] then [] else last p)"

definition suffix :: "path \<Rightarrow> ustr" where
  "suffix p =
     (let nm = path_name p; i = rfind 46 nm
      in if 0 < i \<and> i < int (length nm) - 1 then drop (nat i) nm else [])"

definition with_suffix :: "path \<Rightarrow> ustr \<Rightarrow> py_error + path" where
  "with_suffix p sfx =
     (if 47 \<in> set sfx then Inl ValueError
      else if (sfx \<noteq> [] \<and> \<not> startswith sfx (ascii ''.'')) \<or> sfx = ascii ''.''
      then Inl ValueError
      else
        let nm = path_name p
        in if nm = [] then Inl ValueError
           else
             let old_suffix = suffix p;
                 nm1 = (if old_suffix = [] then nm @ sfx
                        else take (length nm - length old_suffix) nm @ sfx)
             in Inr (butlast p @ [nm1]))"

text \<open>\<open>p.write_text(data)\<close>: the file is opened for writing, which truncates it, and the
  text is written.\<close>

definition write_text ::
  "write_outcome \<Rightarrow> path \<Rightarrow> ustr \<Rightarrow> (path \<rightharpoonup> file_content) \<Rightarrow>
   (py_error + unit) \<times> (path \<rightharpoonup> file_content)" where
  "write_text io p data files =
     (case io of
        WriteOk \<Rightarrow> (Inr (), files(p \<mapsto> Text data))
      | OpenFails \<Rightarrow> (Inl OSError, files)
      | WriteFails n \<Rightarrow> (Inl OSError, files(p \<mapsto> Text (take n data))))"

text \<open>\<open>src.replace(dst)\<close>: an atomic rename, which the operating system performs
  (\<open>ok\<close>) or refuses. Renaming a file to itself changes nothing.\<close>

definition replace_file ::
  "bool \<Rightarrow> path \<Rightarrow> path \<Rightarrow> (path \<rightharpoonup> file_content) \<Rightarrow>
   (py_error + unit) \<times> (path \<rightharpoonup> file_content)" where
  "replace_file ok src dst files =
     (if ok \<and> files src \<noteq> None then (Inr (), (files(src := None))(dst := files src))
      else (Inl OSError, files))"

text \<open>\<open>with_suffix\<close> is called before the \<open>try\<close>: its error is raised without a log
  entry of this function. An error of the two steps inside the \<open>try\<close> is logged and
  raised again.\<close>

definition write_receipt_atomic ::
  "write_outcome \<Rightarrow> bool \<Rightarrow> path \<Rightarrow> ustr \<Rightarrow> app \<Rightarrow> (py_error + unit) \<times> app" where
  "write_receipt_atomic io ok p content s =
     (case with_suffix p (ascii ''.tmp'') of
        Inl e \<Rightarrow> (Inl e, s)
      | Inr tmp \<Rightarrow>
          (case write_text io tmp content (fs s) of
             (Inl e, files1) \<Rightarrow>
               (Inl e, s\<lparr>fs := files1, log := log s @ [Log_atomic_write_failed]\<rparr>)
           | (Inr _, files1) \<Rightarrow>
               (case replace_file ok tmp p files1 of
                  (Inl e, files2) \<Rightarrow>
                    (Inl e, s\<lparr>fs := files2, log := log s @ [Log_atomic_write_failed]\<rparr>)
                | (Inr _, files2) \<Rightarrow> (Inr (), s\<lparr>fs := files2\<rparr>))))"

text \<open>A state in which a receipt was saved earlier as \<open>fis.tmp\<close>.\<close>

definition fis_tmp_app :: app where
  "fis_tmp_app = empty_app\<lparr>fs := [[ascii ''fis.tmp''] \<mapsto> Text (ascii ''old receipt'')]\<rparr>"

section \<open>Sequence matching\<close>

text \<open>
  \<open>difflib.SequenceMatcher(None, a, b)\<close> with the default \<open>autojunk\<close>, as
  \<open>get_close_matches\<close> uses it: no junk predicate, so the set of junk elements is empty
  and the two loops that extend a match by junk never run. \<open>b2j\<close> maps an element of
  \<open>b\<close> to the ascending list of its positions in \<open>b\<close>; when \<open>b\<close> has 200 elements or
  more, the elements that occur more than \<open>len(b) // 100 + 1\<close> times are popular and lose
  their entry. All positions that the code reads are inside the sequences, since the
  ranges \<open>alo..ahi\<close> and \<open>blo..bhi\<close> always lie inside \<open>a\<close> and \<open>b\<close>. A match is
  the triple of its start in \<open>a\<close>, its start in \<open>b\<close> and its size.
\<close>

type_synonym match = "nat \<times> nat \<times> nat"

definition b2j_all :: "ustr \<Rightarrow> codepoint \<Rightarrow> nat list" where
  "b2j_all b x = filter (\<lambda>j. b ! j = x) [0..<length b]"

definition popular :: "ustr \<Rightarrow> codepoint \<Rightarrow> bool" where
  "popular b x \<longleftrightarrow> length b \<ge> 200 \<and> length (b2j_all b x) > length b div 100 + 1"

definition b2j :: "ustr \<Rightarrow> codepoint \<Rightarrow> nat list" where
  "b2j b x = (if popular b x then [] else b2j_all b x)"

text \<open>\<open>j2len.get(j, 0)\<close>; the keys are integers since the code asks for \<open>j - 1\<close> at
  \<open>j = 0\<close>.\<close>

definition j2len_get :: "(int \<rightharpoonup> nat) \<Rightarrow> int \<Rightarrow> nat" where
  "j2len_get j2len j = (case j2len j of None \<Rightarrow> 0 | Some v \<Rightarrow> v)"

text \<open>The inner loop of \<open>find_longest_match\<close> over the positions \<open>j\<close> of \<open>a[i]\<close> in
  \<open>b\<close>: positions below \<open>blo\<close> are skipped, the first position from \<open>bhi\<close> on ends the
  loop.\<close>

fun scan_js ::
  "nat \<Rightarrow> nat \<Rightarrow> nat \<Rightarrow> (int \<rightharpoonup> nat) \<Rightarrow> nat list \<Rightarrow> (int \<rightharpoonup> nat) \<times> match \<Rightarrow> (int \<rightharpoonup> nat) \<times> match" where
  "scan_js i blo bhi j2len [] acc = acc"
| "scan_js i blo bhi j2len (j # js) (newj2len, (besti, bestj, bestsize)) =
     (if j < blo then scan_js i blo bhi j2len js (newj2len, (besti, bestj, bestsize))
      else if j \<ge> bhi then (newj2len, (besti, bestj, bestsize))
      else
        let k = j2len_get j2len (int j - 1) + 1
        in scan_js i blo bhi j2len js
             (newj2len(int j \<mapsto> k),
              if k > bestsize then (i + 1 - k, j + 1 - k, k) else (besti, bestj, bestsize)))"

definition scan_i :: "ustr \<Rightarrow> ustr \<Rightarrow> nat \<Rightarrow> nat \<Rightarrow> nat \<Rightarrow> (int \<rightharpoonup> nat) \<times> match \<Rightarrow> (int \<rightharpoonup> nat) \<times> match" where
  "scan_i a b blo bhi i st = scan_js i blo bhi (fst st) (b2j b (a ! i)) (Map.empty, snd st)"

text \<open>The two loops that extend the best match to the left and to the right.\<close>

function extend_left :: "ustr \<Rightarrow> ustr \<Rightarrow> nat \<Rightarrow> nat \<Rightarrow> match \<Rightarrow> match" where
  "extend_left a b alo blo (besti, bestj, bestsize) =
     (if besti > alo \<and> bestj > blo \<and> a ! (besti - 1) = b ! (bestj - 1)
      then extend_left a b alo blo (besti - 1, bestj - 1, bestsize + 1)
      else (besti, bestj, bestsize))"
  by pat_completeness auto
termination
  by (relation "measure (\<lambda>(a, b, alo, blo, besti, bestj, bestsize). besti)") auto

declare extend_left.simps [simp del]

function extend_right :: "ustr \<Rightarrow> ustr \<Rightarrow> nat \<Rightarrow> nat \<Rightarrow> match \<Rightarrow> match" where
  "extend_right a b ahi bhi (besti, bestj, bestsize) =
     (if besti + bestsize < ahi \<and> bestj + bestsize < bhi \<and>
         a ! (besti + bestsize) = b ! (bestj + bestsize)
      then extend_right a b ahi bhi (besti, bestj, bestsize + 1)
      else (besti, bestj, bestsize))"
  by pat_completeness auto
termination
  by (relation "measure (\<lambda>(a, b, ahi, bhi, besti, bestj, bestsize). ahi - (besti + bestsize))") auto

declare extend_right.simps [simp del]

definition find_longest_match :: "ustr \<Rightarrow> ustr \<Rightarrow> nat \<Rightarrow> nat \<Rightarrow> nat \<Rightarrow> nat \<Rightarrow> match" where
  "find_longest_match a b alo ahi blo bhi =
     (let best = snd (fold (scan_i a b blo bhi) [alo..<ahi] (Map.empty, (alo, blo, 0)))
      in extend_right a b ahi bhi (extend_left a b alo blo best))"

text \<open>What the loops of \<open>find_longest_match\<close> maintain: the best match found lies inside
  the ranges and joins equal elements, and \<open>j2len\<close> holds, for a position \<open>j\<close> of
  \<open>b\<close>, the length of a match that ends at \<open>a[i-1]\<close> and \<open>b[j]\<close>. The bounds give
  the termination of the loop over the queue of ranges below.\<close>

definition good_match :: "ustr \<Rightarrow> ustr \<Rightarrow> nat \<Rightarrow> nat \<Rightarrow> nat \<Rightarrow> nat \<Rightarrow> match \<Rightarrow> bool" where
  "good_match a b alo ahi blo bhi m \<longleftrightarrow>
     (case m of (i, j, k) \<Rightarrow>
        alo \<le> i \<and> blo \<le> j \<and>
        ((k = 0 \<and> i = alo \<and> j = blo) \<or> (i + k \<le> ahi \<and> j + k \<le> bhi)) \<and>
        (\<forall>t<k. a ! (i + t) = b ! (j + t)))"

definition j2len_inv :: "ustr \<Rightarrow> ustr \<Rightarrow> nat \<Rightarrow> nat \<Rightarrow> nat \<Rightarrow> nat \<Rightarrow> (int \<rightharpoonup> nat) \<Rightarrow> bool" where
  "j2len_inv a b alo blo bhi i j2len \<longleftrightarrow>
     (\<forall>j v. j2len j = Some v \<longrightarrow>
        0 \<le> j \<and> 1 \<le> v \<and> v \<le> i - alo \<and> v \<le> nat j + 1 - blo \<and> nat j < bhi \<and>
        (\<forall>t<v. a ! (i - 1 - t) = b ! (nat j - t)))"

lemma b2j_elem: "j \<in> set (b2j b x) \<Longrightarrow> j < length b \<and> b ! j = x"
  by (auto simp: b2j_def b2j_all_def split: if_splits)

lemma scan_js_inv:
  assumes "j2len_inv a b alo blo bhi i j2len"
    and "j2len_inv a b alo blo bhi (Suc i) newj2len"
    and "good_match a b alo (Suc i) blo bhi best"
    and "alo \<le> i"
    and "\<forall>j\<in>set js. b ! j = a ! i"
  shows "j2len_inv a b alo blo bhi (Suc i) (fst (scan_js i blo bhi j2len js (newj2len, best))) \<and>
         good_match a b alo (Suc i) blo bhi (snd (scan_js i blo bhi j2len js (newj2len, best)))"
  using assms
proof (induction js arbitrary: newj2len best)
  case Nil
  then show ?case by simp
next
  case (Cons j js)
  obtain besti bestj bestsize where best: "best = (besti, bestj, bestsize)" by (cases best)
  show ?case
  proof (cases "j < blo")
    case True
    then show ?thesis using Cons best by simp
  next
    case lo: False
    show ?thesis
    proof (cases "j \<ge> bhi")
      case True
      then show ?thesis using Cons.prems lo best by simp
    next
      case hi: False
      define k where "k = j2len_get j2len (int j - 1) + 1"
      have aj: "b ! j = a ! i" using Cons.prems(5) by simp
      have jlo: "blo \<le> j" and jhi: "j < bhi" using lo hi by simp_all
      have k1: "1 \<le> k" by (simp add: k_def)
      have kall: "k \<le> Suc i - alo \<and> k \<le> Suc j - blo \<and> (\<forall>t<k. a ! (i - t) = b ! (j - t))"
      proof (cases "j2len (int j - 1)")
          case None
          then have "k = 1" by (simp add: k_def j2len_get_def)
          moreover have "Suc 0 \<le> Suc i - alo" using \<open>alo \<le> i\<close> by arith
          moreover have "Suc 0 \<le> Suc j - blo" using jlo by arith
          ultimately show ?thesis using aj by simp
        next
          case (Some v)
          then have k: "k = Suc v" by (simp add: k_def j2len_get_def)
          from Cons.prems(1) Some have v0: "0 \<le> int j - 1" and v1: "1 \<le> v"
            and v2: "v \<le> i - alo" and v3: "v \<le> nat (int j - 1) + 1 - blo"
            and v4: "\<forall>t<v. a ! (i - 1 - t) = b ! (nat (int j - 1) - t)"
            unfolding j2len_inv_def by blast+
          have j1: "nat (int j - 1) = j - 1" by simp
          have jpos: "1 \<le> j" using v0 by simp
          have m: "\<forall>t<k. a ! (i - t) = b ! (j - t)"
          proof (intro allI impI)
            fix t assume "t < k"
            show "a ! (i - t) = b ! (j - t)"
            proof (cases t)
              case 0
              then show ?thesis using aj by simp
            next
              case (Suc s)
              then have "s < v" using \<open>t < k\<close> k by simp
              then have "a ! (i - 1 - s) = b ! (j - 1 - s)" using v4 j1 by simp
              then show ?thesis using Suc by simp
            qed
          qed
          have "k \<le> Suc i - alo" using k v1 v2 by arith
          moreover have "k \<le> Suc j - blo" using k v1 v3 j1 jpos by arith
          ultimately show ?thesis using m by simp
      qed
      then have ki: "k \<le> Suc i - alo" and kj: "k \<le> Suc j - blo"
        and km: "\<forall>t<k. a ! (i - t) = b ! (j - t)" by simp_all
      let ?new = "newj2len(int j \<mapsto> k)"
      let ?best = "if k > bestsize then (i + 1 - k, j + 1 - k, k) else (besti, bestj, bestsize)"
      have 1: "j2len_inv a b alo blo bhi (Suc i) ?new"
        unfolding j2len_inv_def
      proof (intro allI impI)
        fix j' v assume jv: "?new j' = Some v"
        show "0 \<le> j' \<and> 1 \<le> v \<and> v \<le> Suc i - alo \<and> v \<le> nat j' + 1 - blo \<and> nat j' < bhi \<and>
              (\<forall>t<v. a ! (Suc i - 1 - t) = b ! (nat j' - t))"
        proof (cases "j' = int j")
          case True
          then have "v = k" using jv by simp
          then show ?thesis using True k1 ki kj km jhi by simp
        next
          case False
          then have "newj2len j' = Some v" using jv by simp
          then show ?thesis using Cons.prems(2) unfolding j2len_inv_def by blast
        qed
      qed
      have 2: "good_match a b alo (Suc i) blo bhi ?best"
      proof (cases "k > bestsize")
        case True
        have m: "\<forall>t<k. a ! (i + 1 - k + t) = b ! (j + 1 - k + t)"
        proof (intro allI impI)
          fix t assume t: "t < k"
          then have "k - 1 - t < k" by simp
          then have e: "a ! (i - (k - 1 - t)) = b ! (j - (k - 1 - t))" using km by blast
          have ia: "i - (k - 1 - t) = i + 1 - k + t" using t ki k1 \<open>alo \<le> i\<close> by arith
          have ja: "j - (k - 1 - t) = j + 1 - k + t" using t kj k1 jlo by arith
          show "a ! (i + 1 - k + t) = b ! (j + 1 - k + t)" using e unfolding ia ja .
        qed
        have b1: "alo \<le> i + 1 - k" using ki k1 \<open>alo \<le> i\<close> by arith
        have b2: "blo \<le> j + 1 - k" using kj k1 jlo by arith
        have b3: "i + 1 - k + k \<le> Suc i" using ki k1 \<open>alo \<le> i\<close> by arith
        have b4: "j + 1 - k + k \<le> bhi" using kj k1 jlo jhi by arith
        have "good_match a b alo (Suc i) blo bhi (i + 1 - k, j + 1 - k, k)"
          unfolding good_match_def using b1 b2 b3 b4 m by simp
        then show ?thesis using True by simp
      next
        case False
        then show ?thesis using Cons.prems(3) best by simp
      qed
      have step: "scan_js i blo bhi j2len (j # js) (newj2len, best) =
                  scan_js i blo bhi j2len js (?new, ?best)"
        using lo hi best by (simp add: k_def Let_def)
      have js: "\<forall>j\<in>set js. b ! j = a ! i" using Cons.prems(5) by simp
      show ?thesis unfolding step by (rule Cons.IH[OF Cons.prems(1) 1 2 Cons.prems(4) js])
    qed
  qed
qed

lemma j2len_inv_empty: "j2len_inv a b alo blo bhi i Map.empty"
  by (simp add: j2len_inv_def)

lemma good_match_mono: "good_match a b alo ahi blo bhi m \<Longrightarrow> ahi \<le> ahi' \<Longrightarrow> good_match a b alo ahi' blo bhi m"
  by (auto simp: good_match_def)

lemma scan_i_inv:
  assumes "j2len_inv a b alo blo bhi i (fst st)" and "good_match a b alo i blo bhi (snd st)" and "alo \<le> i"
  shows "j2len_inv a b alo blo bhi (Suc i) (fst (scan_i a b blo bhi i st)) \<and>
         good_match a b alo (Suc i) blo bhi (snd (scan_i a b blo bhi i st))"
  unfolding scan_i_def
  using scan_js_inv[OF assms(1) j2len_inv_empty good_match_mono[OF assms(2)] assms(3)] b2j_elem
  by simp

lemma fold_scan_inv:
  assumes "alo \<le> m"
  shows "j2len_inv a b alo blo bhi m (fst (fold (scan_i a b blo bhi) [alo..<m] (Map.empty, (alo, blo, 0)))) \<and>
         good_match a b alo m blo bhi (snd (fold (scan_i a b blo bhi) [alo..<m] (Map.empty, (alo, blo, 0))))"
  using assms
proof (induction m rule: nat_induct_at_least)
  case base
  then show ?case by (simp add: j2len_inv_empty good_match_def)
next
  case (Suc n)
  then show ?case using scan_i_inv[of a b alo blo bhi n] by simp
qed

lemma extend_left_good:
  "good_match a b alo ahi blo bhi m \<Longrightarrow> good_match a b alo ahi blo bhi (extend_left a b alo blo m)"
proof (induction a b alo blo m rule: extend_left.induct)
  case (1 a b alo blo besti bestj bestsize)
  show ?case
  proof (cases "besti > alo \<and> bestj > blo \<and> a ! (besti - 1) = b ! (bestj - 1)")
    case True
    have "\<forall>t<bestsize + 1. a ! (besti - 1 + t) = b ! (bestj - 1 + t)"
    proof (intro allI impI)
      fix t assume "t < bestsize + 1"
      show "a ! (besti - 1 + t) = b ! (bestj - 1 + t)"
      proof (cases t)
        case 0
        then show ?thesis using True by simp
      next
        case (Suc s)
        then have "s < bestsize" using \<open>t < bestsize + 1\<close> by simp
        then have "a ! (besti + s) = b ! (bestj + s)" using "1.prems" by (simp add: good_match_def)
        then show ?thesis using Suc True by simp
      qed
    qed
    then have "good_match a b alo ahi blo bhi (besti - 1, bestj - 1, bestsize + 1)"
      using True "1.prems" unfolding good_match_def by auto
    then have "good_match a b alo ahi blo bhi
                 (extend_left a b alo blo (besti - 1, bestj - 1, bestsize + 1))"
      using "1.IH" True by blast
    then show ?thesis using True by (subst extend_left.simps) simp
  next
    case False
    then show ?thesis using "1.prems" by (subst extend_left.simps) auto
  qed
qed


lemma extend_right_good:
  "good_match a b alo ahi blo bhi m \<Longrightarrow> good_match a b alo ahi blo bhi (extend_right a b ahi bhi m)"
proof (induction a b ahi bhi m rule: extend_right.induct)
  case (1 a b ahi bhi besti bestj bestsize)
  show ?case
  proof (cases "besti + bestsize < ahi \<and> bestj + bestsize < bhi \<and>
         a ! (besti + bestsize) = b ! (bestj + bestsize)")
    case True
    have "\<forall>t<bestsize + 1. a ! (besti + t) = b ! (bestj + t)"
    proof (intro allI impI)
      fix t assume "t < bestsize + 1"
      then consider "t < bestsize" | "t = bestsize" by linarith
      then show "a ! (besti + t) = b ! (bestj + t)"
        using True "1.prems" by cases (auto simp: good_match_def)
    qed
    then have "good_match a b alo ahi blo bhi (besti, bestj, bestsize + 1)"
      using True "1.prems" unfolding good_match_def by auto
    then have "good_match a b alo ahi blo bhi
                 (extend_right a b ahi bhi (besti, bestj, bestsize + 1))"
      using "1.IH" True by blast
    then show ?thesis using True by (subst extend_right.simps) simp
  next
    case False
    then show ?thesis using "1.prems" by (subst extend_right.simps) auto
  qed
qed

lemma find_longest_match_good:
  "good_match a b alo ahi blo bhi (find_longest_match a b alo ahi blo bhi)"
proof -
  let ?best = "snd (fold (scan_i a b blo bhi) [alo..<ahi] (Map.empty, (alo, blo, 0)))"
  have "good_match a b alo ahi blo bhi ?best"
  proof (cases "alo \<le> ahi")
    case True
    then show ?thesis using fold_scan_inv by blast
  next
    case False
    then show ?thesis by (simp add: good_match_def)
  qed
  then show ?thesis
    unfolding find_longest_match_def Let_def
    by (intro extend_right_good extend_left_good)
qed

lemma find_longest_match_bounds:
  assumes "find_longest_match a b alo ahi blo bhi = (i, j, k)" and "k \<noteq> 0"
  shows "alo \<le> i" "i + k \<le> ahi" "blo \<le> j" "j + k \<le> bhi" "\<forall>t<k. a ! (i + t) = b ! (j + t)"
  using find_longest_match_good[of a b alo ahi blo bhi] assms
  by (auto simp: good_match_def)

text \<open>\<open>get_matching_blocks\<close>: the loop over the queue of ranges still to be matched
  (\<open>queue.pop()\<close> takes the range appended last, here the head of the list), then the
  sort, the merge of adjacent blocks and the final dummy block.\<close>

type_synonym range = "nat \<times> nat \<times> nat \<times> nat"

fun pending :: "range \<Rightarrow> nat" where
  "pending (alo, ahi, blo, bhi) = 2 * (ahi - alo) + 1"

function matching_loop :: "ustr \<Rightarrow> ustr \<Rightarrow> range list \<Rightarrow> match list \<Rightarrow> match list" where
  "matching_loop a b [] blocks = blocks"
| "matching_loop a b ((alo, ahi, blo, bhi) # queue) blocks =
     (case find_longest_match a b alo ahi blo bhi of
        (i, j, k) \<Rightarrow>
          if k \<noteq> 0
          then matching_loop a b
                 ((if i + k < ahi \<and> j + k < bhi then [(i + k, ahi, j + k, bhi)] else []) @
                  (if alo < i \<and> blo < j then [(alo, i, blo, j)] else []) @ queue)
                 (blocks @ [(i, j, k)])
          else matching_loop a b queue blocks)"
  by pat_completeness auto
termination
proof (relation "measure (\<lambda>(a, b, queue, blocks). sum_list (map pending queue))", goal_cases)
  case 1
  show ?case by simp
next
  case (2 a b alo ahi blo bhi queue blocks i y j k)
  then have f: "find_longest_match a b alo ahi blo bhi = (i, j, k)" by simp
  have k: "k \<noteq> 0" using 2 by simp
  have "alo \<le> i" and "i + k \<le> ahi"
    using find_longest_match_bounds[OF f k] by simp_all
  then have "2 * (ahi - (i + k)) + 1 + (2 * (i - alo) + 1) < 2 * (ahi - alo) + 1"
    using k by arith
  then show ?case by simp
next
  case (3 a b alo ahi blo bhi queue blocks i y j k)
  show ?case by simp
qed

declare matching_loop.simps(2) [simp del]

fun collapse_adjacent :: "match \<Rightarrow> match list \<Rightarrow> match list" where
  "collapse_adjacent (i1, j1, k1) [] = (if k1 \<noteq> 0 then [(i1, j1, k1)] else [])"
| "collapse_adjacent (i1, j1, k1) ((i2, j2, k2) # blocks) =
     (if i1 + k1 = i2 \<and> j1 + k1 = j2 then collapse_adjacent (i1, j1, k1 + k2) blocks
      else (if k1 \<noteq> 0 then [(i1, j1, k1)] else []) @ collapse_adjacent (i2, j2, k2) blocks)"

definition get_matching_blocks :: "ustr \<Rightarrow> ustr \<Rightarrow> match list" where
  "get_matching_blocks a b =
     (let la = length a; lb = length b;
          matching_blocks = sort (matching_loop a b [(0, la, 0, lb)] [])
      in collapse_adjacent (0, 0, 0) matching_blocks @ [(la, lb, 0)])"

text \<open>The three ratios. Python computes \<open>2.0 * matches / length\<close> in binary floating
  point; the model keeps the exact rational number. The two order every pair of ratios the
  same way, and compare with the cutoff the same way, as long as the sequences are shorter
  than \<open>2^26\<close> elements: two different such fractions differ by more than one unit in the
  last place of a double.\<close>

definition calculate_ratio :: "nat \<Rightarrow> nat \<Rightarrow> rat" where
  "calculate_ratio matches len = (if len \<noteq> 0 then 2 * of_nat matches / of_nat len else 1)"

definition ratio :: "ustr \<Rightarrow> ustr \<Rightarrow> rat" where
  "ratio a b =
     (let matches = sum_list (map (\<lambda>(i, j, k). k) (get_matching_blocks a b))
      in calculate_ratio matches (length a + length b))"

text \<open>The loop of \<open>quick_ratio\<close>: \<open>avail\<close> holds how many more times an element of
  \<open>a\<close> can still be matched in \<open>b\<close>.\<close>

fun count_available :: "ustr \<Rightarrow> (codepoint \<rightharpoonup> int) \<Rightarrow> ustr \<Rightarrow> nat \<Rightarrow> nat" where
  "count_available b avail [] matches = matches"
| "count_available b avail (elt # rest) matches =
     (let numb = (case avail elt of Some n \<Rightarrow> n | None \<Rightarrow> int (count_list b elt))
      in count_available b (avail(elt \<mapsto> numb - 1)) rest
           (if numb > 0 then matches + 1 else matches))"

definition quick_ratio :: "ustr \<Rightarrow> ustr \<Rightarrow> rat" where
  "quick_ratio a b = calculate_ratio (count_available b Map.empty a 0) (length a + length b)"

definition real_quick_ratio :: "ustr \<Rightarrow> ustr \<Rightarrow> rat" where
  "real_quick_ratio a b =
     (let la = length a; lb = length b in calculate_ratio (min la lb) (la + lb))"

text \<open>\<open>heapq.nlargest(n, xs)\<close>: the \<open>n\<close> greatest elements, the greatest first. The
  elements are pairs of a ratio and a string, compared as Python compares tuples.\<close>

definition nlargest :: "nat \<Rightarrow> ('a::linorder) list \<Rightarrow> 'a list" where
  "nlargest n xs = take n (rev (sort xs))"

definition get_close_matches :: "ustr \<Rightarrow> ustr list \<Rightarrow> int \<Rightarrow> rat \<Rightarrow> py_error + ustr list" where
  "get_close_matches word possibilities n cutoff =
     (if \<not> n > 0 then Inl ValueError
      else if \<not> (0 \<le> cutoff \<and> cutoff \<le> 1) then Inl ValueError
      else
        let result = map (\<lambda>x. (ratio x word, x))
                       (filter (\<lambda>x. real_quick_ratio x word \<ge> cutoff \<and>
                                     quick_ratio x word \<ge> cutoff \<and>
                                     ratio x word \<ge> cutoff) possibilities)
        in Inr (map snd (nlargest (nat n) result)))"

section \<open>Looking a customer up by name\<close>

text \<open>A Python \<open>dict\<close> as the list of its items in insertion order: assigning to a key
  that is present replaces the value in place.\<close>

fun dict_set :: "'k \<Rightarrow> 'v \<Rightarrow> ('k \<times> 'v) list \<Rightarrow> ('k \<times> 'v) list" where
  "dict_set k v [] = [(k, v)]"
| "dict_set k v ((k', v') # d) = (if k' = k then (k, v) # d else (k', v') # dict_set k v d)"

definition dict_of_pairs :: "('k \<times> 'v) list \<Rightarrow> ('k \<times> 'v) list" where
  "dict_of_pairs ps = fold (\<lambda>(k, v) d. dict_set k v d) ps []"

definition find_customer_by_name :: "customer list \<Rightarrow> ustr \<Rightarrow> py_error + customer option" where
  "find_customer_by_name custs nm =
     (if nm = [] then Inr None
      else
        let key = normalize_for_comparison nm
        in case find (\<lambda>c. normalize_for_comparison (name c) = key) custs of
             Some c \<Rightarrow> Inr (Some c)
           | None \<Rightarrow>
               let candidates =
                     dict_of_pairs (map (\<lambda>c. (normalize_for_comparison (name c), c)) custs)
               in case get_close_matches key (map fst candidates) 1 (7 / 10) of
                    Inl e \<Rightarrow> Inl e
                  | Inr close \<Rightarrow>
                      if close \<noteq> []
                      then (case map_of candidates (hd close) of
                              None \<Rightarrow> Inl KeyError
                            | Some c \<Rightarrow> Inr (Some c))
                      else Inr None)"

text \<open>A directory with two entries of the same normalized name.\<close>

definition ahmet_mehmet :: "customer list" where
  "ahmet_mehmet = [Customer (ascii ''Ahmet''), Customer (ascii ''Mehmet''), Customer (ascii ''AHMET'')]"

section \<open>Floating-point numbers\<close>

text \<open>A Python \<open>float\<close> is an IEEE 754 binary64 number: a finite number
  \<open>(-1)^s * m * 2^e\<close>, kept with an odd \<open>m\<close> (or \<open>m = 0\<close> and \<open>e = 0\<close> for
  the two zeros), an infinity, or NaN.\<close>

datatype float = Float bool nat int | Infinity bool | NaN

text \<open>The float \<open>0.0\<close>.\<close>

definition float_zero :: float where
  "float_zero = Float False 0 0"

text \<open>The number of binary digits of a natural number, and the removal of trailing zero bits.\<close>

fun bitlen :: "nat \<Rightarrow> nat" where
  "bitlen n = (if n = 0 then 0 else Suc (bitlen (n div 2)))"

declare bitlen.simps [simp del]

fun normalise :: "nat \<Rightarrow> int \<Rightarrow> nat \<times> int" where
  "normalise m e = (if m \<noteq> 0 \<and> even m then normalise (m div 2) (e + 1) else (m, e))"

declare normalise.simps [simp del]

text \<open>Rounding to nearest, ties to even: \<open>round_even neg m e\<close> is the double nearest
  to \<open>m * 2^e\<close> (negated when \<open>neg\<close>). At most 53 binary digits are kept and no
  digit below \<open>2^-1074\<close>; a result of \<open>2^1024\<close> or more is an infinity.\<close>

definition pack :: "bool \<Rightarrow> nat \<Rightarrow> int \<Rightarrow> float" where
  "pack neg q e =
     (if q = 0 then Float neg 0 0
      else if int (bitlen q) + e > 1024 then Infinity neg
      else Float neg (fst (normalise q e)) (snd (normalise q e)))"

definition round_half_even_div :: "nat \<Rightarrow> nat \<Rightarrow> nat" where
  "round_half_even_div n d =
     (if 2 * (n mod d) > d \<or> (2 * (n mod d) = d \<and> odd (n div d)) then n div d + 1
      else n div d)"

definition round_shift :: "bool \<Rightarrow> nat \<Rightarrow> int \<Rightarrow> int \<Rightarrow> float" where
  "round_shift neg m e shift =
     (if shift \<le> 0 then pack neg m e
      else pack neg (round_half_even_div m (2 ^ nat shift)) (e + shift))"

definition round_even :: "bool \<Rightarrow> nat \<Rightarrow> int \<Rightarrow> float" where
  "round_even neg m e = round_shift neg m e (max (int (bitlen m) - 53) (- 1074 - e))"

text \<open>The double nearest to the decimal number \<open>d * 10^k\<close>. For a negative \<open>k\<close> the
  quotient is computed with at least 55 binary digits, and one more digit records whether
  the division left a remainder, so that the rounding sees the exact value.\<close>

definition scaled_quotient :: "bool \<Rightarrow> nat \<Rightarrow> nat \<Rightarrow> nat \<Rightarrow> float" where
  "scaled_quotient neg d den s =
     round_even neg (2 * ((d * 2 ^ s) div den) + (if (d * 2 ^ s) mod den \<noteq> 0 then 1 else 0))
       (- int s - 1)"

definition divide_round :: "bool \<Rightarrow> nat \<Rightarrow> nat \<Rightarrow> float" where
  "divide_round neg d den =
     scaled_quotient neg d den (nat (max 0 (int (bitlen den) + 55 - int (bitlen d))))"

definition of_decimal :: "bool \<Rightarrow> nat \<Rightarrow> int \<Rightarrow> float" where
  "of_decimal neg d k =
     (if d = 0 then Float neg 0 0
      else if k \<ge> 0 then round_even neg (d * 10 ^ nat k) 0
      else divide_round neg d (10 ^ nat (- k)))"

text \<open>The product and the sum of two floats. Python raises no error for them.\<close>

fun fmul :: "float \<Rightarrow> float \<Rightarrow> float" where
  "fmul NaN y = NaN"
| "fmul x NaN = NaN"
| "fmul (Infinity s) (Infinity t) = Infinity (s \<noteq> t)"
| "fmul (Infinity s) (Float t m e) = (if m = 0 then NaN else Infinity (s \<noteq> t))"
| "fmul (Float s m e) (Infinity t) = (if m = 0 then NaN else Infinity (s \<noteq> t))"
| "fmul (Float s m e) (Float t n f) = round_even (s \<noteq> t) (m * n) (e + f)"

definition signed :: "bool \<Rightarrow> nat \<Rightarrow> int" where
  "signed neg m = (if neg then - int m else int m)"

definition add_aligned :: "bool \<Rightarrow> bool \<Rightarrow> int \<Rightarrow> int \<Rightarrow> float" where
  "add_aligned s t v g =
     (if v = 0 then Float (s \<and> t) 0 0 else round_even (v < 0) (nat \<bar>v\<bar>) g)"

fun fadd :: "float \<Rightarrow> float \<Rightarrow> float" where
  "fadd NaN y = NaN"
| "fadd x NaN = NaN"
| "fadd (Infinity s) (Infinity t) = (if s = t then Infinity s else NaN)"
| "fadd (Infinity s) (Float t m e) = Infinity s"
| "fadd (Float s m e) (Infinity t) = Infinity t"
| "fadd (Float s m e) (Float t n f) =
     add_aligned s t
       (signed s m * 2 ^ nat (e - min e f) + signed t n * 2 ^ nat (f - min e f)) (min e f)"

text \<open>The comparison \<open>x <= 0\<close>.\<close>

fun fle_zero :: "float \<Rightarrow> bool" where
  "fle_zero NaN = False"
| "fle_zero (Infinity s) = s"
| "fle_zero (Float s m e) = (s \<or> m = 0)"

subsection \<open>Reading and writing decimal numbers\<close>

text \<open>\<open>float(s)\<close> for a string: an underscore must stand between two digits; white space
  around the number is dropped; the number is a sign, then \<open>inf\<close>, \<open>infinity\<close> or
  \<open>nan\<close> in any case, or decimal digits with an optional point and an optional exponent.
  The only error that \<open>float\<close> raises for a string is \<open>ValueError\<close>, the result
  \<open>None\<close> here. Decimal digits outside Basic Latin are not modelled.\<close>

definition is_digit :: "codepoint \<Rightarrow> bool" where
  "is_digit c \<longleftrightarrow> 48 \<le> c \<and> c \<le> 57"

fun underscores_ok :: "codepoint \<Rightarrow> ustr \<Rightarrow> bool" where
  "underscores_ok prev [] = (prev \<noteq> 95)"
| "underscores_ok prev (c # cs) =
     (if c = 95 then is_digit prev \<and> underscores_ok c cs
      else if prev = 95 then is_digit c \<and> underscores_ok c cs
      else underscores_ok c cs)"

definition digits_value :: "ustr \<Rightarrow> nat" where
  "digits_value ds = fold (\<lambda>c acc. acc * 10 + (c - 48)) ds 0"

definition lower_ascii :: "ustr \<Rightarrow> ustr" where
  "lower_ascii s = map (\<lambda>c. if 65 \<le> c \<and> c \<le> 90 then c + 32 else c) s"

definition exponent_value :: "bool \<Rightarrow> ustr \<Rightarrow> int option" where
  "exponent_value neg ds =
     (if ds \<noteq> [] \<and> list_all is_digit ds
      then Some (if neg then - int (digits_value ds) else int (digits_value ds))
      else None)"

definition parse_exponent :: "ustr \<Rightarrow> int option" where
  "parse_exponent r =
     (if r = [] then Some 0
      else if hd r = 101 \<or> hd r = 69 then
        (if tl r \<noteq> [] \<and> (hd (tl r) = 43 \<or> hd (tl r) = 45)
         then exponent_value (hd (tl r) = 45) (tl (tl r))
         else exponent_value False (tl r))
      else None)"

definition decimal_value :: "bool \<Rightarrow> ustr \<Rightarrow> ustr \<Rightarrow> int option \<Rightarrow> float option" where
  "decimal_value neg ip fp x =
     (if ip = [] \<and> fp = [] then None
      else if x = None then None
      else Some (of_decimal neg (digits_value (ip @ fp)) (the x - int (length fp))))"

definition parse_fraction :: "bool \<Rightarrow> ustr \<Rightarrow> ustr \<Rightarrow> float option" where
  "parse_fraction neg ip r1 =
     (if r1 \<noteq> [] \<and> hd r1 = 46
      then decimal_value neg ip (takeWhile is_digit (tl r1))
             (parse_exponent (dropWhile is_digit (tl r1)))
      else decimal_value neg ip [] (parse_exponent r1))"

definition parse_unsigned :: "bool \<Rightarrow> ustr \<Rightarrow> float option" where
  "parse_unsigned neg r =
     (if lower_ascii r = ascii ''inf'' \<or> lower_ascii r = ascii ''infinity''
      then Some (Infinity neg)
      else if lower_ascii r = ascii ''nan'' then Some NaN
      else parse_fraction neg (takeWhile is_digit r) (dropWhile is_digit r))"

definition parse_signed :: "ustr \<Rightarrow> float option" where
  "parse_signed t =
     (if t \<noteq> [] \<and> (hd t = 43 \<or> hd t = 45) then parse_unsigned (hd t = 45) (tl t)
      else parse_unsigned False t)"

definition float_of_str :: "ustr \<Rightarrow> float option" where
  "float_of_str s =
     (if underscores_ok 0 s then parse_signed (strip (filter (\<lambda>c. c \<noteq> 95) s)) else None)"

text \<open>The format \<open>:.{prec}f\<close>: the exact value of the float rounded to \<open>prec\<close>
  decimals, ties to even.\<close>

fun nat_str :: "nat \<Rightarrow> ustr" where
  "nat_str n = (if n < 10 then [48 + n] else nat_str (n div 10) @ [48 + n mod 10])"

declare nat_str.simps [simp del]

definition fixed_text :: "bool \<Rightarrow> nat \<Rightarrow> nat \<Rightarrow> ustr" where
  "fixed_text neg prec n =
     (if neg then ascii ''-'' else []) @ nat_str (n div 10 ^ prec) @
     (if prec = 0 then []
      else ascii ''.'' @ replicate (prec - length (nat_str (n mod 10 ^ prec))) 48 @
           nat_str (n mod 10 ^ prec))"

fun format_f :: "nat \<Rightarrow> float \<Rightarrow> ustr" where
  "format_f prec NaN = ascii ''nan''"
| "format_f prec (Infinity s) = (if s then ascii ''-inf'' else ascii ''inf'')"
| "format_f prec (Float s m e) =
     fixed_text s prec
       (if e \<ge> 0 then m * 2 ^ nat e * 10 ^ prec
        else round_half_even_div (m * 10 ^ prec) (2 ^ nat (- e)))"

section \<open>Prices and receipts\<close>

definition parse_number :: "ustr \<Rightarrow> float" where
  "parse_number v =
     (if v = [] then float_zero
      else case float_of_str (replace 44 46 v) of
             Some x \<Rightarrow> x
           | None \<Rightarrow> float_zero)"

text \<open>The two roles of \<open>ROLE_VAT_MAP\<close> with their rates \<open>0.02\<close> and \<open>0.01\<close>.\<close>

definition PAZARCI_ESNAFI :: ustr where
  "PAZARCI_ESNAFI = ascii ''Pazarc'' @ [305] @ ascii '' Esnaf'' @ [305]"

definition HAL_ICI_ORTACI :: ustr where
  "HAL_ICI_ORTACI = ascii ''Hal '' @ [304, 231] @ ascii ''i / Ortac'' @ [305]"

definition ROLE_VAT_MAP :: "(ustr \<times> float) list" where
  "ROLE_VAT_MAP =
     [(PAZARCI_ESNAFI, of_decimal False 2 (- 2)), (HAL_ICI_ORTACI, of_decimal False 1 (- 2))]"

definition role_vat :: "ustr \<Rightarrow> float" where
  "role_vat role = (case map_of ROLE_VAT_MAP role of Some v \<Rightarrow> v | None \<Rightarrow> float_zero)"

text \<open>No statement in the \<open>try\<close> block of \<open>calculate_total\<close> can raise: the
  \<open>except\<close> branch is never taken.\<close>

definition calculate_total :: "app \<Rightarrow> app" where
  "calculate_total s =
     (let weight = parse_number (weight_var s);
          price = parse_number (price_per_kg_var s);
          net_total = fmul weight price;
          vat_rate = role_vat (role_var s);
          total_with_vat = fadd net_total (fmul net_total vat_rate)
      in s\<lparr>total_var := replace 46 44 (format_f 2 total_with_vat) @ ascii '' TL''\<rparr>)"

text \<open>The first three statements of \<open>_generate_receipt_text\<close>: the net total, the VAT
  amount and the total.\<close>

definition receipt_amounts :: "float \<Rightarrow> float \<Rightarrow> float \<Rightarrow> float \<times> float \<times> float" where
  "receipt_amounts weight price vat_rate =
     (let net_total = fmul weight price;
          vat_amount = fmul net_total vat_rate;
          total_with_vat = fadd net_total vat_amount
      in (net_total, vat_amount, total_with_vat))"

definition line :: "ustr \<Rightarrow> ustr" where
  "line t = t @ [10]"

definition generate_receipt_text ::
  "ustr \<Rightarrow> app \<Rightarrow> customer option \<Rightarrow> ustr \<Rightarrow> ustr \<Rightarrow> float \<Rightarrow> float \<Rightarrow> float \<Rightarrow> ustr" where
  "generate_receipt_text now s cust item_type piece_count weight price vat_rate =
     (case receipt_amounts weight price vat_rate of
        (net_total, vat_amount, total_with_vat) \<Rightarrow>
          line (ascii ''=== SEBZE-MEYVE F'' @ [304, 350, 304] @ ascii '' ==='') @
          line (ascii ''Tarih: '' @ now) @
          line (ascii ''M'' @ [252, 351] @ ascii ''teri T'' @ [252] @ ascii ''r'' @ [252] @
                ascii '': '' @ role_var s) @
          line (ascii ''M'' @ [252, 351] @ ascii ''teri Ad'' @ [305] @ ascii '': '' @
                (case cust of Some c \<Rightarrow> name c | None \<Rightarrow> [])) @
          line (ascii ''Mal'' @ [305] @ ascii ''n Cinsi: '' @ item_type) @
          line (ascii ''Par'' @ [231] @ ascii ''a Adedi: '' @ piece_count) @
          line (ascii ''Kilo: '' @ format_f 2 weight @ ascii '' kg'') @
          line (ascii ''Birim Fiyat: '' @ format_f 2 price) @
          line (ascii ''Net Tutar: '' @ format_f 2 net_total) @
          line (ascii ''KDV (%'' @ format_f 0 (fmul vat_rate (Float False 25 2)) @ ascii ''): '' @
                format_f 2 vat_amount) @
          line (ascii ''Toplam: '' @ format_f 2 total_with_vat))"

text \<open>What a run of \<open>print_receipt\<close> reads from outside: the clock (as the text of the
  receipt and as the stamp of the file name), the answer to the question whether to use the
  previous directory, the path picked in the save dialog (\<open>None\<close> when the dialog is
  cancelled), and what becomes of the write, the rename and the print job.\<close>

record environment =
  now_text :: ustr
  now_stamp :: ustr
  use_prev :: bool
  chosen :: "path option"
  write_result :: write_outcome
  rename_ok :: bool
  print_ok :: bool

definition do_print :: "bool \<Rightarrow> path \<Rightarrow> app \<Rightarrow> app" where
  "do_print ok file_path s = (if ok then s else s\<lparr>log := log s @ [Log_printing_failed]\<rparr>)"

definition clear_form_after_print :: "app \<Rightarrow> app" where
  "clear_form_after_print s =
     s\<lparr>piece_count_var := [], weight_var := [], price_per_kg_var := [],
       total_var := ascii ''0.00''\<rparr>"

text \<open>The choice of the save path. \<open>last_save_dir\<close> is \<open>None\<close> while the attribute
  does not exist; the string of a directory is never empty.\<close>

definition ask_save_path :: "environment \<Rightarrow> app \<Rightarrow> (path \<times> app) option" where
  "ask_save_path env s =
     (case chosen env of
        None \<Rightarrow> None
      | Some p \<Rightarrow> Some (p, s\<lparr>last_save_dir := Some (butlast p)\<rparr>))"

definition choose_save_path :: "environment \<Rightarrow> app \<Rightarrow> (path \<times> app) option" where
  "choose_save_path env s =
     (case last_save_dir s of
        Some d \<Rightarrow>
          if use_prev env
          then Some (d @ [ascii ''fis_'' @ now_stamp env @ ascii ''.txt''], s)
          else ask_save_path env s
      | None \<Rightarrow> ask_save_path env s)"

text \<open>The handler of the outer \<open>try\<close> of \<open>print_receipt\<close>.\<close>

definition unexpected_error :: "app \<Rightarrow> app" where
  "unexpected_error s =
     s\<lparr>log := log s @ [Log_print_receipt_failed], dialogs := dialogs s @ [Error_unexpected]\<rparr>"

definition save_and_print :: "environment \<Rightarrow> ustr \<Rightarrow> path \<times> app \<Rightarrow> app" where
  "save_and_print env receipt_text ps =
     (case ps of
        (save_path, s1) \<Rightarrow>
          (case write_receipt_atomic (write_result env) (rename_ok env) save_path receipt_text s1 of
             (Inl e, s2) \<Rightarrow> unexpected_error s2
           | (Inr u, s2) \<Rightarrow>
               let s3 = do_print (print_ok env) save_path s2;
                   s4 = s3\<lparr>dialogs := dialogs s3 @ [Info_receipt_saved save_path]\<rparr>
               in clear_form_after_print s4))"

definition print_receipt :: "environment \<Rightarrow> app \<Rightarrow> app" where
  "print_receipt env s =
     (let customer_name = strip (customer_name_var s)
      in if customer_name = [] then s\<lparr>dialogs := dialogs s @ [Warning_customer_name_empty]\<rparr>
         else
           let weight = parse_number (weight_var s);
               price = parse_number (price_per_kg_var s)
           in if fle_zero weight then s\<lparr>dialogs := dialogs s @ [Warning_weight_not_positive]\<rparr>
              else if fle_zero price
              then s\<lparr>dialogs := dialogs s @ [Warning_price_not_positive]\<rparr>
              else
                (case find_customer_by_name (customers s) customer_name of
                   Inl e \<Rightarrow> unexpected_error s
                 | Inr found \<Rightarrow>
                     let customer =
                           (case found of
                              None \<Rightarrow> Customer (format_for_display customer_name)
                            | Some c \<Rightarrow> c);
                         vat_rate = role_vat (role_var s);
                         receipt_text =
                           generate_receipt_text (now_text env) s (Some customer)
                             (item_type_var s) (piece_count_var s) weight price vat_rate
                     in case choose_save_path env s of
                          None \<Rightarrow> s
                        | Some ps \<Rightarrow> save_and_print env receipt_text ps))"

text \<open>A filled form: one stored customer, Ali, and the typed name \<open>zeynep\<close>, which matches
  nobody; an environment in which the operator picks the path \<open>p\<close> and nothing fails;
  and the receipt that is written then.\<close>

definition zeynep_form :: app where
  "zeynep_form =
     refresh_listbox
       (empty_app\<lparr>customers := [Customer (ascii ''Ali'')],
                  fs := [CUSTOMER_FILE \<mapsto> Json [Customer (ascii ''Ali'')]],
                  customer_name_var := ascii ''zeynep'',
                  item_type_var := ascii ''ELMA'',
                  piece_count_var := ascii ''3'',
                  weight_var := ascii ''10'',
                  price_per_kg_var := ascii ''5,0'',
                  role_var := PAZARCI_ESNAFI\<rparr>)"

definition save_as :: "path \<Rightarrow> environment" where
  "save_as p =
     \<lparr>now_text = ascii ''2024-01-02 03:04:05'', now_stamp = ascii ''20240102_030405'',
      use_prev = False, chosen = Some p, write_result = WriteOk, rename_ok = True,
      print_ok = True\<rparr>"

definition zeynep_receipt :: ustr where
  "zeynep_receipt =
     generate_receipt_text (ascii ''2024-01-02 03:04:05'') zeynep_form
       (Some (Customer (ascii ''Zeynep''))) (ascii ''ELMA'') (ascii ''3'')
       (Float False 5 1) (Float False 5 0) (Float False 5764607523034235 (- 58))"

section \<open>Notions of the specification\<close>

text \<open>The invariant of the customer directory, in the words of the specification: no two
  entries have equal normalized names.\<close>

definition directory_invariant :: "customer list \<Rightarrow> bool" where
  "directory_invariant cs \<longleftrightarrow> distinct (map (\<lambda>c. normalize_for_comparison (name c)) cs)"


text \<open>Notions of the proofs about sequence matching: the segment of a list between two
  positions, the number of elements that two segments share (as multisets), and the value
  that \<open>quick_ratio\<close> reads from \<open>avail\<close>.\<close>

definition seg :: "'a list \<Rightarrow> nat \<Rightarrow> nat \<Rightarrow> 'a list" where
  "seg xs lo hi = map (nth xs) [lo..<hi]"

fun capacity :: "ustr \<Rightarrow> ustr \<Rightarrow> range \<Rightarrow> nat" where
  "capacity a b (alo, ahi, blo, bhi) = size (mset (seg a alo ahi) \<inter># mset (seg b blo bhi))"

abbreviation block_size :: "match \<Rightarrow> nat" where
  "block_size \<equiv> (\<lambda>(i, j, k). k)"

definition avail_get :: "ustr \<Rightarrow> (codepoint \<rightharpoonup> int) \<Rightarrow> codepoint \<Rightarrow> int" where
  "avail_get b avail x = (case avail x of Some n \<Rightarrow> n | None \<Rightarrow> int (count_list b x))"

section \<open>Properties of the string functions\<close>

lemmas string_defs =
  normalize_for_comparison_def format_for_display_def ascii_def strip_def split_def
  isspace_def turkish_title_def lower_def lower_cp_def startswith_def casefold_def
  casefold_cp_def compat_cp_def title_cp_def

lemmas app_defs =
  type_and_add_def add_new_customer_def save_customers_def refresh_listbox_def
  empty_app_def Customer_def remove_selected_customer_def listbox_get_def














section \<open>Name normalization and display\<close>

text \<open>
  Claim C3. The claim: for every name \<open>n\<close>, the normalized key of the display form of
  \<open>n\<close> is the normalized key of \<open>n\<close>. The program breaks it for the name \<open>ilker\<close>:
  the display form starts with U+0130, which \<open>casefold\<close> folds to \<open>i\<close> followed by
  U+0307, so the key of the stored name differs from the key of the typed name.
\<close>

theorem display_changes_key_of_ilker:
  "format_for_display (ascii ''ilker'') = CAPITAL_I_WITH_DOT_ABOVE # ascii ''lker'' \<and>
   normalize_for_comparison (format_for_display (ascii ''ilker'')) =
     [105, COMBINING_DOT_ABOVE] @ ascii ''lker'' \<and>
   normalize_for_comparison (ascii ''ilker'') = ascii ''ilker'' \<and>
   normalize_for_comparison (format_for_display (ascii ''ilker'')) \<noteq>
     normalize_for_comparison (ascii ''ilker'')"
  by (simp add: string_defs)



section \<open>Adding and removing customers\<close>

text \<open>
  Claim C5. The claim: two consecutive adds of names that differ only by case, white
  space or Unicode composition store one customer, and the second add is refused as a
  duplicate. The program stores two: \<open>ilker\<close> and \<open>ILKER \<close> have the same
  normalized key, the first add stores the display form, whose key is another one, and
  the second add passes the duplicate test without a dialog.
\<close>

theorem second_add_of_ilker_is_not_refused:
  "normalize_for_comparison (ascii ''ILKER '') = normalize_for_comparison (ascii ''ilker'') \<and>
   (let s1 = type_and_add (ascii ''ilker'') WriteOk empty_app;
        s2 = type_and_add (ascii ''ILKER '') WriteOk s1
    in map name (customers s2) =
         [CAPITAL_I_WITH_DOT_ABOVE # ascii ''lker'', CAPITAL_I_WITH_DOT_ABOVE # ascii ''lker''] \<and>
       dialogs s2 = [])"
  by (simp add: string_defs app_defs Let_def)

text \<open>
  Claim C6. The claim: every state reached from the empty directory by the public
  operations has no two entries with equal normalized names. Adding \<open>ilker\<close> twice to
  the empty directory reaches a state with two such entries.
\<close>

theorem add_breaks_directory_invariant:
  "directory_invariant (customers empty_app) \<and>
   \<not> directory_invariant
        (customers (type_and_add (ascii ''ilker'') WriteOk
                     (type_and_add (ascii ''ilker'') WriteOk empty_app)))"
  by (simp add: directory_invariant_def string_defs app_defs Let_def)

text \<open>
  Claim C9, as the claim states it: the operation returns a boolean that tells whether
  anything was removed, and it persists the directory. The handler returns \<open>None\<close>
  also when it removed entries, and when the file cannot be opened the file is not
  written (here it stays absent).
\<close>

theorem remove_returns_none_counterexample:
  "fst (remove_selected_customer [0] True WriteOk ali_veli_ali) \<noteq> PyBool True \<and>
   customers (snd (remove_selected_customer [0] True WriteOk ali_veli_ali)) \<noteq>
     customers ali_veli_ali \<and>
   fs (snd (remove_selected_customer [0] True OpenFails ali_veli_ali)) CUSTOMER_FILE = None"
  by (simp add: ali_veli_ali_def string_defs app_defs Let_def)

text \<open>
  Claim C9, amended. When an entry of the list box is selected and the operator confirms,
  the handler keeps exactly the customers whose normalized name differs from the
  normalized selected name, in their order (so every entry with that key is removed, not
  only the first); it returns \<open>None\<close>; when the write succeeds the customers file holds
  the remaining list, and when it fails the failure is logged.
\<close>

theorem remove_selected_customer_removes_all:
  assumes "sel \<noteq> []" and "confirmed"
  shows "fst (remove_selected_customer sel confirmed io s) = PyNone \<and>
         customers (snd (remove_selected_customer sel confirmed io s)) =
           filter (\<lambda>c. normalize_for_comparison (name c) \<noteq>
                        normalize_for_comparison (listbox_get s (hd sel))) (customers s) \<and>
         (\<forall>c\<in>set (customers (snd (remove_selected_customer sel confirmed io s))).
            normalize_for_comparison (name c) \<noteq>
              normalize_for_comparison (listbox_get s (hd sel))) \<and>
         (io = WriteOk \<longrightarrow>
            fs (snd (remove_selected_customer sel confirmed io s)) CUSTOMER_FILE =
              Some (Json (customers (snd (remove_selected_customer sel confirmed io s))))) \<and>
         (io \<noteq> WriteOk \<longrightarrow>
            log (snd (remove_selected_customer sel confirmed io s)) =
              log s @ [Log_save_customers_failed])"
  using assms
  by (cases io)
     (simp_all add: remove_selected_customer_def save_customers_def refresh_listbox_def Let_def)

theorem remove_selected_customer_removes_all_witness:
  "[0::nat] \<noteq> [] \<and>
   customers (snd (remove_selected_customer [0] True WriteOk ali_veli_ali)) =
     [Customer (ascii ''Veli'')] \<and>
   fs (snd (remove_selected_customer [0] True WriteOk ali_veli_ali)) CUSTOMER_FILE =
     Some (Json [Customer (ascii ''Veli'')])"
  using remove_selected_customer_removes_all [of "[0]" True WriteOk ali_veli_ali]
  by (simp add: ali_veli_ali_def string_defs app_defs Let_def)

section \<open>Writing a receipt\<close>

lemmas path_defs =
  with_suffix_def suffix_def path_name_def rfind_def write_text_def replace_file_def
  write_receipt_atomic_def

lemma with_suffix_name:
  assumes "with_suffix p sfx = Inr q"
  shows "q \<noteq> [] \<and> butlast q = butlast p \<and> (\<exists>stem. last q = stem @ sfx)"
  using assms by (auto simp: with_suffix_def Let_def split: if_splits)

lemma tmp_not_customer_file:
  assumes "with_suffix p (ascii ''.tmp'') = Inr q"
  shows "q \<noteq> CUSTOMER_FILE"
proof
  assume "q = CUSTOMER_FILE"
  then have "last q = ascii ''customers.json''" by (simp add: CUSTOMER_FILE_def)
  moreover obtain stem where "last q = stem @ ascii ''.tmp''"
    using with_suffix_name[OF assms] by blast
  ultimately have "last (stem @ ascii ''.tmp'') = last (ascii ''customers.json'')" by simp
  then show False by (simp add: ascii_def)
qed

text \<open>The files that \<open>write_receipt_atomic\<close> leaves alone: all but the target and the
  temporary file. The list of customers is not touched.\<close>

lemma write_receipt_atomic_frame:
  assumes "q \<noteq> p" and "with_suffix p (ascii ''.tmp'') \<noteq> Inr q"
  shows "fs (snd (write_receipt_atomic io ok p content s)) q = fs s q"
  using assms
  by (auto simp: write_receipt_atomic_def write_text_def replace_file_def
           split: sum.splits write_outcome.splits prod.splits if_splits)

lemma write_receipt_atomic_customers:
  "customers (snd (write_receipt_atomic io ok p content s)) = customers s"
  by (auto simp: write_receipt_atomic_def write_text_def replace_file_def
           split: sum.splits write_outcome.splits prod.splits if_splits)

text \<open>When the temporary file is another file than the target, the target holds the whole
  new content after a success, and what it held before (or nothing) after a failure, which
  is logged and raised.\<close>

lemma write_receipt_atomic_target:
  assumes "with_suffix p (ascii ''.tmp'') = Inr tmp" and "tmp \<noteq> p"
  shows "(fst (write_receipt_atomic io ok p content s) = Inr () \<and>
          fs (snd (write_receipt_atomic io ok p content s)) p = Some (Text content)) \<or>
         (\<exists>e. fst (write_receipt_atomic io ok p content s) = Inl e \<and>
              fs (snd (write_receipt_atomic io ok p content s)) p = fs s p \<and>
              log (snd (write_receipt_atomic io ok p content s)) =
                log s @ [Log_atomic_write_failed])"
  using assms
  by (auto simp: write_receipt_atomic_def write_text_def replace_file_def
           split: sum.splits write_outcome.splits prod.splits if_splits)

text \<open>
  Claim C2. The claim: for every path the content goes to a temporary sibling file first,
  so that the final path never holds partial content. For a path whose suffix is already
  \<open>.tmp\<close> the temporary path is the final path itself: the text is written straight
  into the target, and a write that fails after three characters leaves the target with
  these three characters in place of its previous content.
\<close>

theorem write_to_tmp_path_leaves_partial_file:
  "with_suffix [ascii ''fis.tmp''] (ascii ''.tmp'') = Inr [ascii ''fis.tmp''] \<and>
   fs fis_tmp_app [ascii ''fis.tmp''] = Some (Text (ascii ''old receipt'')) \<and>
   fst (write_receipt_atomic (WriteFails 3) True [ascii ''fis.tmp''] (ascii ''new receipt'')
          fis_tmp_app) = Inl OSError \<and>
   fs (snd (write_receipt_atomic (WriteFails 3) True [ascii ''fis.tmp''] (ascii ''new receipt'')
          fis_tmp_app)) [ascii ''fis.tmp''] = Some (Text (ascii ''new''))"
  by (simp add: path_defs fis_tmp_app_def empty_app_def ascii_def startswith_def)

section \<open>Sequence matching\<close>

text \<open>The blocks that \<open>get_matching_blocks\<close> finds are disjoint and join equal
  elements, so their sizes add up to at most the number of elements the two sequences
  share; this is the number \<open>quick_ratio\<close> counts, which is at most the length of the
  shorter sequence. Hence the two quick tests of \<open>get_close_matches\<close> never reject a
  candidate that passes the test of \<open>ratio\<close>.\<close>

lemma seg_split3:
  assumes "lo \<le> i" "i + k \<le> hi"
  shows "seg xs lo hi = seg xs lo i @ seg xs i (i + k) @ seg xs (i + k) hi"
proof -
  obtain d where d: "hi = i + k + d" using assms(2) by (metis le_Suc_ex)
  have 1: "[lo..<i + (k + d)] = [lo..<i] @ [i..<i + (k + d)]"
    using assms(1) by (rule upt_add_eq_append)
  have 2: "[i..<i + k + d] = [i..<i + k] @ [i + k..<i + k + d]"
    by (rule upt_add_eq_append) simp
  have "[lo..<hi] = [lo..<i] @ [i..<i + k] @ [i + k..<hi]"
    using 1 2 by (simp add: d add.assoc)
  then show ?thesis by (simp add: seg_def)
qed

lemma seg_match:
  assumes "\<forall>t<k. a ! (i + t) = b ! (j + t)"
  shows "seg a i (i + k) = seg b j (j + k)"
  using assms by (auto simp: seg_def intro!: nth_equalityI)

lemma inter_mset_sum3:
  "size (A1 \<inter># B1) + size C + size (A2 \<inter># B2) \<le>
   size ((A1 + C + A2) \<inter># (B1 + C + B2))"
proof -
  have "(A1 \<inter># B1) + C + (A2 \<inter># B2) \<subseteq># (A1 + C + A2) \<inter># (B1 + C + B2)"
    by (intro subset_mset.inf_greatest mset_subset_eq_mono_add) simp_all
  then have "size ((A1 \<inter># B1) + C + (A2 \<inter># B2)) \<le> size ((A1 + C + A2) \<inter># (B1 + C + B2))"
    by (rule size_mset_mono)
  then show ?thesis by simp
qed

lemma capacity_split:
  assumes f: "find_longest_match a b alo ahi blo bhi = (i, j, k)" and k: "k \<noteq> 0"
  shows "k + capacity a b (alo, i, blo, j) + capacity a b (i + k, ahi, j + k, bhi)
         \<le> capacity a b (alo, ahi, blo, bhi)"
proof -
  note bd = find_longest_match_bounds[OF f k]
  have sa: "seg a alo ahi = seg a alo i @ seg a i (i + k) @ seg a (i + k) ahi"
    using bd by (intro seg_split3) simp_all
  have sb: "seg b blo bhi = seg b blo j @ seg b j (j + k) @ seg b (j + k) bhi"
    using bd by (intro seg_split3) simp_all
  have m: "seg a i (i + k) = seg b j (j + k)" using bd(5) by (rule seg_match)
  have len: "size (mset (seg b j (j + k))) = k" by (simp add: seg_def)
  show ?thesis
    using inter_mset_sum3[of "mset (seg a alo i)" "mset (seg b blo j)" "mset (seg b j (j + k))"
        "mset (seg a (i + k) ahi)" "mset (seg b (j + k) bhi)"]
    unfolding len by (simp add: sa sb m ac_simps)
qed

lemma matching_loop_bound:
  "sum_list (map block_size (matching_loop a b queue blocks)) \<le>
   sum_list (map block_size blocks) + sum_list (map (capacity a b) queue)"
proof (induction a b queue blocks rule: matching_loop.induct)
  case (1 a b blocks)
  then show ?case by simp
next
  case (2 a b alo ahi blo bhi queue blocks)
  obtain i j k where f: "find_longest_match a b alo ahi blo bhi = (i, j, k)"
    by (cases "find_longest_match a b alo ahi blo bhi")
  show ?case
  proof (cases "k \<noteq> 0")
    case True
    let ?new = "(if i + k < ahi \<and> j + k < bhi then [(i + k, ahi, j + k, bhi)] else []) @
                (if alo < i \<and> blo < j then [(alo, i, blo, j)] else [])"
    have step: "matching_loop a b ((alo, ahi, blo, bhi) # queue) blocks =
                matching_loop a b (?new @ queue) (blocks @ [(i, j, k)])"
      using f True by (subst matching_loop.simps(2)) simp
    have ih: "sum_list (map block_size (matching_loop a b (?new @ queue) (blocks @ [(i, j, k)])))
              \<le> sum_list (map block_size (blocks @ [(i, j, k)])) +
                 sum_list (map (capacity a b) (?new @ queue))"
      using "2.IH"(1)[OF f[symmetric] refl True] by simp
    have "sum_list (map (capacity a b) ?new) \<le>
          capacity a b (alo, i, blo, j) + capacity a b (i + k, ahi, j + k, bhi)"
      by simp
    then have "k + sum_list (map (capacity a b) ?new) \<le> capacity a b (alo, ahi, blo, bhi)"
      using capacity_split[OF f True] by linarith
    then show ?thesis unfolding step using ih by simp
  next
    case False
    have step: "matching_loop a b ((alo, ahi, blo, bhi) # queue) blocks =
                matching_loop a b queue blocks"
      using f False by (subst matching_loop.simps(2)) simp
    show ?thesis unfolding step using "2.IH"(2)[OF f[symmetric] refl False] by simp
  qed
qed

lemma collapse_adjacent_sum:
  "sum_list (map block_size (collapse_adjacent m blocks)) =
   block_size m + sum_list (map block_size blocks)"
  by (induction m blocks rule: collapse_adjacent.induct) auto

lemma sum_list_sort: "sum_list (map f (sort xs)) = sum_list (map (f :: 'a::linorder \<Rightarrow> nat) xs)"
proof -
  have "sum_list (map f (sort xs)) = sum_mset (image_mset f (mset (sort xs)))"
    by (metis mset_map sum_mset_sum_list)
  also have "\<dots> = sum_mset (image_mset f (mset xs))" by simp
  also have "\<dots> = sum_list (map f xs)" by (metis mset_map sum_mset_sum_list)
  finally show ?thesis .
qed

lemma seg_all: "seg xs 0 (length xs) = xs"
  by (simp add: seg_def map_nth)

lemma matches_bound:
  "sum_list (map block_size (get_matching_blocks a b)) \<le> size (mset a \<inter># mset b)"
proof -
  have "sum_list (map block_size (get_matching_blocks a b)) =
        sum_list (map block_size (matching_loop a b [(0, length a, 0, length b)] []))"
    by (simp add: get_matching_blocks_def Let_def collapse_adjacent_sum sum_list_sort)
  also have "\<dots> \<le> capacity a b (0, length a, 0, length b)"
    using matching_loop_bound[of a b "[(0, length a, 0, length b)]" "[]"] by simp
  finally show ?thesis by (simp add: seg_all)
qed

lemma count_available_eq:
  assumes "\<forall>x. nat (avail_get b avail x) = count R x"
  shows "count_available b avail rest m = m + size (mset rest \<inter># R)"
  using assms
proof (induction rest arbitrary: avail R m)
  case Nil
  then show ?case by simp
next
  case (Cons elt rest)
  let ?numb = "avail_get b avail elt"
  let ?avail = "avail(elt \<mapsto> ?numb - 1)"
  have step: "count_available b avail (elt # rest) m =
              count_available b ?avail rest (if ?numb > 0 then m + 1 else m)"
    by (simp add: avail_get_def Let_def)
  show ?case
  proof (cases "?numb > 0")
    case True
    then have mem: "elt \<in># R" using Cons.prems by (metis count_greater_zero_iff zero_less_nat_eq)
    have "\<forall>x. nat (avail_get b ?avail x) = count (R - {#elt#}) x"
    proof
      fix x show "nat (avail_get b ?avail x) = count (R - {#elt#}) x"
      proof (cases "x = elt")
        case True
        have "nat (?numb - 1) = nat ?numb - 1" by simp
        then show ?thesis using True Cons.prems by (simp add: avail_get_def)
      next
        case False
        then show ?thesis using Cons.prems by (simp add: avail_get_def)
      qed
    qed
    then have "count_available b ?avail rest (m + 1) = m + 1 + size (mset rest \<inter># (R - {#elt#}))"
      by (rule Cons.IH)
    moreover have "mset (elt # rest) \<inter># R = add_mset elt (mset rest \<inter># (R - {#elt#}))"
      using mem by (simp add: inter_add_left2)
    ultimately show ?thesis using True step by simp
  next
    case False
    then have nmem: "elt \<notin># R" using Cons.prems
      by (metis count_eq_zero_iff nat_le_0 not_less)
    have "\<forall>x. nat (avail_get b ?avail x) = count R x"
    proof
      fix x show "nat (avail_get b ?avail x) = count R x"
      proof (cases "x = elt")
        case True
        have "nat (?numb - 1) = 0" using False by simp
        moreover have "count R elt = 0" using nmem by (simp add: count_eq_zero_iff)
        ultimately show ?thesis using True by (simp add: avail_get_def)
      next
        case False
        then show ?thesis using Cons.prems by (simp add: avail_get_def)
      qed
    qed
    then have "count_available b ?avail rest m = m + size (mset rest \<inter># R)"
      by (rule Cons.IH)
    moreover have "mset (elt # rest) \<inter># R = mset rest \<inter># R"
      using nmem by (simp add: inter_add_left1)
    ultimately show ?thesis using False step by simp
  qed
qed

lemma quick_matches_eq: "count_available b Map.empty a 0 = size (mset a \<inter># mset b)"
  using count_available_eq[of b Map.empty "mset b" a 0]
  by (simp add: avail_get_def count_mset)

lemma inter_size_le_min: "size (mset a \<inter># mset b) \<le> min (length a) (length b)"
proof -
  have "size (mset a \<inter># mset b) \<le> size (mset a)" by (intro size_mset_mono) simp
  moreover have "size (mset a \<inter># mset b) \<le> size (mset b)" by (intro size_mset_mono) simp
  ultimately show ?thesis by simp
qed

lemma calculate_ratio_mono: "m \<le> n \<Longrightarrow> calculate_ratio m len \<le> calculate_ratio n len"
  by (simp add: calculate_ratio_def divide_right_mono)

lemma ratio_le_quick_ratio: "ratio a b \<le> quick_ratio a b"
  unfolding ratio_def quick_ratio_def Let_def quick_matches_eq
  by (intro calculate_ratio_mono matches_bound)

lemma quick_ratio_le_real_quick_ratio: "quick_ratio a b \<le> real_quick_ratio a b"
  unfolding real_quick_ratio_def quick_ratio_def Let_def quick_matches_eq
  by (intro calculate_ratio_mono inter_size_le_min)

lemma accepted_iff:
  "real_quick_ratio x word \<ge> cutoff \<and> quick_ratio x word \<ge> cutoff \<and> ratio x word \<ge> cutoff
   \<longleftrightarrow> ratio x word \<ge> cutoff"
  using ratio_le_quick_ratio[of x word] quick_ratio_le_real_quick_ratio[of x word] by auto

lemma sorted_le_last: "sorted ys \<Longrightarrow> y \<in> set ys \<Longrightarrow> y \<le> last ys"
  by (induction ys) auto

lemma nlargest_one:
  "nlargest 1 xs = (if xs = [] then [] else [Max (set xs)])"
proof (cases "xs = []")
  case True
  then show ?thesis by (simp add: nlargest_def)
next
  case False
  then have ne: "sort xs \<noteq> []" by (metis length_sort length_0_conv)
  have "last (sort xs) = Max (set (sort xs))"
  proof (rule sym, rule Max_eqI)
    show "finite (set (sort xs))" by simp
    show "\<And>y. y \<in> set (sort xs) \<Longrightarrow> y \<le> last (sort xs)"
      using sorted_le_last[of "sort xs"] by simp
    show "last (sort xs) \<in> set (sort xs)" using ne by (rule last_in_set)
  qed
  then have "hd (rev (sort xs)) = Max (set xs)" using ne by (simp add: hd_rev)
  moreover have "rev (sort xs) \<noteq> []" using ne by simp
  ultimately have "take 1 (rev (sort xs)) = [Max (set xs)]"
    by (cases "rev (sort xs)") auto
  then show ?thesis using False by (simp add: nlargest_def)
qed

lemma get_close_matches_one:
  assumes "0 \<le> cutoff" "cutoff \<le> 1"
  shows "get_close_matches word possibilities 1 cutoff =
         Inr (map snd (nlargest 1 (map (\<lambda>x. (ratio x word, x))
                (filter (\<lambda>x. ratio x word \<ge> cutoff) possibilities))))"
  using assms by (simp add: get_close_matches_def accepted_iff Let_def)

lemmas difflib_defs =
  ratio_def get_matching_blocks_def calculate_ratio_def find_longest_match_def scan_i_def
  b2j_def b2j_all_def popular_def j2len_get_def matching_loop.simps extend_left.simps
  extend_right.simps quick_ratio_def real_quick_ratio_def get_close_matches_def nlargest_def

lemma map_of_dict_set: "map_of (dict_set k v d) = (map_of d)(k \<mapsto> v)"
  by (induction d) (auto simp: fun_upd_twist)

lemma keys_dict_set: "fst ` set (dict_set k v d) = insert k (fst ` set d)"
proof (induction d)
  case Nil
  then show ?case by simp
next
  case (Cons p d)
  obtain k' v' where p: "p = (k', v')" by (cases p)
  show ?case
  proof (cases "k' = k")
    case True
    then show ?thesis using p by auto
  next
    case False
    then have "fst ` set (dict_set k v (p # d)) = insert k' (fst ` set (dict_set k v d))"
      using p by simp
    then show ?thesis using Cons.IH p by auto
  qed
qed

lemma fold_dict_set:
  "map_of (fold (\<lambda>(k, v) d. dict_set k v d) ps d) = map_of (rev ps @ d) \<and>
   fst ` set (fold (\<lambda>(k, v) d. dict_set k v d) ps d) = fst ` set ps \<union> fst ` set d"
proof (induction ps arbitrary: d)
  case Nil
  then show ?case by simp
next
  case (Cons p ps)
  obtain k v where p: "p = (k, v)" by (cases p)
  have "map_of (rev ps @ dict_set k v d) = map_of (rev ps @ (k, v) # d)"
    by (simp add: map_of_append map_of_dict_set)
  then show ?case using Cons[of "dict_set k v d"] p by (auto simp: keys_dict_set)
qed

lemma dict_of_pairs_lookup:
  "map_of (dict_of_pairs ps) k = Some v \<Longrightarrow> (k, v) \<in> set ps"
  using fold_dict_set[of ps "[]"] by (auto simp: dict_of_pairs_def dest: map_of_SomeD)

lemma dict_of_pairs_keys: "set (map fst (dict_of_pairs ps)) = fst ` set ps"
  using fold_dict_set[of ps "[]"] by (simp add: dict_of_pairs_def)

lemma dict_of_pairs_defined:
  "k \<in> fst ` set ps \<Longrightarrow> \<exists>v. map_of (dict_of_pairs ps) k = Some v"
  using dict_of_pairs_keys[of ps] by (metis (no_types) set_map map_of_eq_None_iff not_None_eq)

text \<open>The fuzzy step, for a directory without an exact match.\<close>

lemma closest_key:
  fixes key :: ustr and keys :: "ustr list"
  defines "result \<equiv> map (\<lambda>x. (ratio x key, x)) (filter (\<lambda>x. ratio x key \<ge> 7 / 10) keys)"
  shows "get_close_matches key keys 1 (7 / 10) = Inr (map snd (nlargest 1 result))"
    and "result = [] \<longleftrightarrow> (\<forall>x\<in>set keys. ratio x key < 7 / 10)"
    and "result \<noteq> [] \<Longrightarrow> map snd (nlargest 1 result) = [snd (Max (set result))]"
    and "result \<noteq> [] \<Longrightarrow> snd (Max (set result)) \<in> set keys \<and>
           7 / 10 \<le> ratio (snd (Max (set result))) key \<and>
           (\<forall>x\<in>set keys. ratio x key \<le> ratio (snd (Max (set result))) key)"
proof -
  show "get_close_matches key keys 1 (7 / 10) = Inr (map snd (nlargest 1 result))"
    unfolding result_def by (rule get_close_matches_one) simp_all
  show "result = [] \<longleftrightarrow> (\<forall>x\<in>set keys. ratio x key < 7 / 10)"
    by (auto simp: result_def filter_empty_conv not_le)
  show "result \<noteq> [] \<Longrightarrow> map snd (nlargest 1 result) = [snd (Max (set result))]"
    using nlargest_one[of result] by simp
  assume ne: "result \<noteq> []"
  let ?m = "Max (set result)"
  have mem: "?m \<in> set result" using ne by (intro Max_in) simp_all
  then obtain x where x: "x \<in> set keys" "7 / 10 \<le> ratio x key" "?m = (ratio x key, x)"
    by (auto simp: result_def)
  have "\<forall>y\<in>set keys. ratio y key \<le> ratio x key"
  proof
    fix y assume y: "y \<in> set keys"
    show "ratio y key \<le> ratio x key"
    proof (cases "7 / 10 \<le> ratio y key")
      case True
      then have "(ratio y key, y) \<in> set result" using y by (simp add: result_def)
      then have "(ratio y key, y) \<le> ?m" by (intro Max_ge) simp_all
      then show ?thesis unfolding x(3) by (auto simp: less_eq_prod_def)
    next
      case False
      then show ?thesis using x(2) by simp
    qed
  qed
  then show "snd ?m \<in> set keys \<and> 7 / 10 \<le> ratio (snd ?m) key \<and>
             (\<forall>x\<in>set keys. ratio x key \<le> ratio (snd ?m) key)"
    using x by simp
qed

section \<open>Looking a customer up by name\<close>

lemmas find_defs = find_customer_by_name_def dict_of_pairs_def Customer_def ahmet_mehmet_def


lemma find_first_index:
  assumes "i < length xs" "P (xs ! i)" "\<forall>j<i. \<not> P (xs ! j)"
  shows "find P xs = Some (xs ! i)"
  using assms by (auto simp: find_Some_iff)

lemma dict_lookup_key:
  assumes "x \<in> set (map fst (dict_of_pairs ps))"
  shows "\<exists>c. map_of (dict_of_pairs ps) x = Some c \<and> (x, c) \<in> set ps"
proof -
  have "x \<in> fst ` set ps" using assms dict_of_pairs_keys[of ps] by simp
  then obtain c where "map_of (dict_of_pairs ps) x = Some c"
    using dict_of_pairs_defined[of x ps] by blast
  then show ?thesis using dict_of_pairs_lookup[of ps x c] by blast
qed

lemma fuzzy_step:
  assumes q: "query \<noteq> []"
    and no: "\<forall>c\<in>set custs. normalize_for_comparison (name c) \<noteq> normalize_for_comparison query"
  shows "\<exists>r. find_customer_by_name custs query = Inr r \<and>
          (case r of
             None \<Rightarrow>
               \<forall>c\<in>set custs.
                 ratio (normalize_for_comparison (name c)) (normalize_for_comparison query) < 7 / 10
           | Some c \<Rightarrow>
               c \<in> set custs \<and>
               7 / 10 \<le> ratio (normalize_for_comparison (name c)) (normalize_for_comparison query) \<and>
               (\<forall>d\<in>set custs.
                  ratio (normalize_for_comparison (name d)) (normalize_for_comparison query)
                  \<le> ratio (normalize_for_comparison (name c)) (normalize_for_comparison query)))"
proof -
  define K where "K = (\<lambda>c :: customer. normalize_for_comparison (name c))"
  define key where "key = normalize_for_comparison query"
  define pairs where "pairs = map (\<lambda>c. (K c, c)) custs"
  define cand where "cand = dict_of_pairs pairs"
  define keys where "keys = map fst cand"
  define result where
    "result = map (\<lambda>x. (ratio x key, x)) (filter (\<lambda>x. ratio x key \<ge> 7 / 10) keys)"
  have nf: "find (\<lambda>c. K c = key) custs = None"
    using no by (simp add: find_None_iff K_def key_def)
  have keyset: "set keys = K ` set custs"
    using dict_of_pairs_keys[of pairs] by (simp add: keys_def cand_def pairs_def image_image)
  have gcm: "get_close_matches key keys 1 (7 / 10) = Inr (map snd (nlargest 1 result))"
    unfolding result_def by (rule closest_key(1))
  have unfold: "find_customer_by_name custs query =
      (case get_close_matches key keys 1 (7 / 10) of
         Inl e \<Rightarrow> Inl e
       | Inr close \<Rightarrow>
           if close \<noteq> []
           then (case map_of cand (hd close) of None \<Rightarrow> Inl KeyError | Some c \<Rightarrow> Inr (Some c))
           else Inr None)"
    using q nf unfolding K_def key_def pairs_def cand_def keys_def
    by (simp add: find_customer_by_name_def Let_def)
  show ?thesis
  proof (cases "result = []")
    case True
    then have "nlargest 1 result = []" by (simp add: nlargest_def)
    then have r: "find_customer_by_name custs query = Inr None"
      unfolding unfold gcm by simp
    have "\<forall>x\<in>set keys. ratio x key < 7 / 10"
      using True closest_key(2)[where keys = keys and key = key] by (simp add: result_def)
    then have "\<forall>c\<in>set custs. ratio (K c) key < 7 / 10" unfolding keyset by simp
    then show ?thesis using r by (simp add: K_def key_def)
  next
    case False
    define x where "x = snd (Max (set result))"
    have cl: "map snd (nlargest 1 result) = [x]"
      using False closest_key(3)[where keys = keys and key = key] by (simp add: result_def x_def)
    have xk: "x \<in> set keys" and xr: "7 / 10 \<le> ratio x key"
      and xm: "\<forall>y\<in>set keys. ratio y key \<le> ratio x key"
      using False closest_key(4)[where keys = keys and key = key]
      by (simp_all add: result_def x_def)
    obtain c where c: "map_of cand x = Some c" "(x, c) \<in> set pairs"
      using dict_lookup_key[of x pairs] xk by (auto simp: keys_def cand_def)
    have cc: "c \<in> set custs" "K c = x" using c(2) by (auto simp: pairs_def)
    have r: "find_customer_by_name custs query = Inr (Some c)"
      unfolding unfold gcm cl using c(1) by simp
    have "\<forall>d\<in>set custs. ratio (K d) key \<le> ratio (K c) key"
      using xm unfolding keyset cc(2) by simp
    then show ?thesis using r cc xr by (simp add: K_def key_def)
  qed
qed

text \<open>
  Claim C1, amended. The empty query finds nobody. For every directory and every non-empty
  query, the lookup returns the first customer in list order whose normalized name equals
  the normalized query; when no customer has that normalized name, it returns a customer
  whose normalized name has the greatest similarity ratio to the normalized query among
  all customers, provided this ratio is at least 0.7, and nobody when every ratio is below
  0.7. It never raises an error.
\<close>

theorem find_customer_by_name_exact_then_closest:
  "find_customer_by_name custs [] = Inr None \<and>
   (query \<noteq> [] \<longrightarrow>
      (\<forall>i<length custs.
          normalize_for_comparison (name (custs ! i)) = normalize_for_comparison query \<and>
          (\<forall>j<i. normalize_for_comparison (name (custs ! j)) \<noteq> normalize_for_comparison query)
          \<longrightarrow> find_customer_by_name custs query = Inr (Some (custs ! i))) \<and>
      ((\<forall>c\<in>set custs. normalize_for_comparison (name c) \<noteq> normalize_for_comparison query)
          \<longrightarrow> (\<exists>r. find_customer_by_name custs query = Inr r \<and>
                 (case r of
                    None \<Rightarrow>
                      \<forall>c\<in>set custs.
                        ratio (normalize_for_comparison (name c))
                              (normalize_for_comparison query) < 7 / 10
                  | Some c \<Rightarrow>
                      c \<in> set custs \<and>
                      7 / 10 \<le> ratio (normalize_for_comparison (name c))
                                    (normalize_for_comparison query) \<and>
                      (\<forall>d\<in>set custs.
                         ratio (normalize_for_comparison (name d))
                               (normalize_for_comparison query)
                         \<le> ratio (normalize_for_comparison (name c))
                                  (normalize_for_comparison query))))))"
proof (intro conjI impI allI)
  show "find_customer_by_name custs [] = Inr None"
    by (simp add: find_customer_by_name_def)
next
  fix i
  assume q: "query \<noteq> []" and i: "i < length custs"
    and m: "normalize_for_comparison (name (custs ! i)) = normalize_for_comparison query \<and>
            (\<forall>j<i. normalize_for_comparison (name (custs ! j)) \<noteq> normalize_for_comparison query)"
  have "find (\<lambda>c. normalize_for_comparison (name c) = normalize_for_comparison query) custs =
        Some (custs ! i)"
    using i m by (intro find_first_index) simp_all
  then show "find_customer_by_name custs query = Inr (Some (custs ! i))"
    using q by (simp add: find_customer_by_name_def)
next
  assume q: "query \<noteq> []"
    and no: "\<forall>c\<in>set custs. normalize_for_comparison (name c) \<noteq> normalize_for_comparison query"
  show "\<exists>r. find_customer_by_name custs query = Inr r \<and>
          (case r of
             None \<Rightarrow>
               \<forall>c\<in>set custs.
                 ratio (normalize_for_comparison (name c)) (normalize_for_comparison query) < 7 / 10
           | Some c \<Rightarrow>
               c \<in> set custs \<and>
               7 / 10 \<le> ratio (normalize_for_comparison (name c)) (normalize_for_comparison query) \<and>
               (\<forall>d\<in>set custs.
                  ratio (normalize_for_comparison (name d)) (normalize_for_comparison query)
                  \<le> ratio (normalize_for_comparison (name c)) (normalize_for_comparison query)))"
    using q no by (rule fuzzy_step)
qed

theorem find_customer_by_name_exact_then_closest_witness:
  "ascii '' AHMET'' \<noteq> [] \<and>
   normalize_for_comparison (name (ahmet_mehmet ! 0)) = normalize_for_comparison (ascii '' AHMET'') \<and>
   normalize_for_comparison (name (ahmet_mehmet ! 2)) = normalize_for_comparison (ascii '' AHMET'') \<and>
   find_customer_by_name ahmet_mehmet (ascii '' AHMET'') = Inr (Some (Customer (ascii ''Ahmet''))) \<and>
   find_customer_by_name ahmet_mehmet (ascii ''mehmed'') = Inr (Some (Customer (ascii ''Mehmet''))) \<and>
   ratio (ascii ''mehmet'') (ascii ''mehmed'') = 5 / 6 \<and>
   ratio (ascii ''ahmet'') (ascii ''mehmed'') = 6 / 11 \<and>
   find_customer_by_name ahmet_mehmet (ascii ''zeynep'') = Inr None"
proof -
  have q: "ascii '' AHMET'' \<noteq> []" by (simp add: ascii_def)
  have 1: "find_customer_by_name ahmet_mehmet (ascii '' AHMET'') = Inr (Some (ahmet_mehmet ! 0))"
    using find_customer_by_name_exact_then_closest
            [of ahmet_mehmet "ascii '' AHMET''", THEN conjunct2, THEN mp, OF q,
             THEN conjunct1, THEN spec, of 0]
    by (simp add: ahmet_mehmet_def Customer_def string_defs)
  have 2: "find_customer_by_name ahmet_mehmet (ascii ''mehmed'') = Inr (Some (Customer (ascii ''Mehmet'')))"
    by (simp add: find_defs string_defs difflib_defs Let_def less_eq_prod_def less_prod_def)
  have 3: "find_customer_by_name ahmet_mehmet (ascii ''zeynep'') = Inr None"
    by (simp add: find_defs string_defs difflib_defs Let_def less_eq_prod_def less_prod_def)
  have 4: "ratio (ascii ''mehmet'') (ascii ''mehmed'') = 5 / 6"
    by (simp add: difflib_defs ascii_def Let_def)
  have 5: "ratio (ascii ''ahmet'') (ascii ''mehmed'') = 6 / 11"
    by (simp add: difflib_defs ascii_def Let_def)
  have 6: "normalize_for_comparison (name (ahmet_mehmet ! 0)) = normalize_for_comparison (ascii '' AHMET'')"
    "normalize_for_comparison (name (ahmet_mehmet ! 2)) = normalize_for_comparison (ascii '' AHMET'')"
    by (simp_all add: ahmet_mehmet_def Customer_def string_defs)
  show ?thesis using q 1 2 3 4 5 6 by (simp add: ahmet_mehmet_def)
qed

text \<open>
  Claim C1, as the claim states it for every query: the lookup returns the first customer
  whose normalized name equals the normalized query. For the empty query the function
  returns at once, also when the directory holds a customer with the empty name (a
  \<open>customers.json\<close> entry without a name loads as one).
\<close>

theorem find_customer_by_name_empty_query_counterexample:
  "normalize_for_comparison (name (Customer [])) = normalize_for_comparison [] \<and>
   find_customer_by_name [Customer []] [] = Inr None"
  by (simp add: find_defs string_defs)

section \<open>Prices and receipts\<close>

lemmas float_defs = float_zero_def round_even_def round_shift_def round_half_even_div_def
  pack_def of_decimal_def divide_round_def scaled_quotient_def add_aligned_def signed_def
  bitlen.simps normalise.simps

lemmas parse_defs = float_of_str_def parse_signed_def parse_unsigned_def parse_fraction_def
  decimal_value_def parse_exponent_def exponent_value_def lower_ascii_def
  digits_value_def is_digit_def strip_def isspace_def ascii_def
lemmas format_defs = fixed_text_def round_half_even_div_def nat_str.simps ascii_def

lemmas receipt_defs = parse_number_def role_vat_def ROLE_VAT_MAP_def PAZARCI_ESNAFI_def
  HAL_ICI_ORTACI_def receipt_amounts_def calculate_total_def replace_def

lemma round_even_zero: "round_even neg 0 e = Float neg 0 0"
  by (simp add: round_even_def round_shift_def pack_def round_half_even_div_def)

lemma fmul_zero_left: "fmul (Float s 0 e) (Float t n f) = Float (s \<noteq> t) 0 0"
  by (simp add: round_even_zero)

lemma fmul_zero_right: "fmul (Float s m e) (Float t 0 f) = Float (s \<noteq> t) 0 0"
  by (simp add: round_even_zero)



text \<open>
  Claim C8. The parser returns what \<open>float\<close> reads from the input with every comma
  replaced by a point, and \<open>0.0\<close> when \<open>float\<close> rejects that string, the empty
  string included: it never raises. Replacing the commas of the input by points does not
  change the result, so that \<open>12,5\<close> parses as \<open>12.5\<close> does.
\<close>

theorem parse_number_comma_or_zero:
  "parse_number v =
     (case float_of_str (replace 44 46 v) of None \<Rightarrow> float_zero | Some x \<Rightarrow> x) \<and>
   parse_number (replace 44 46 v) = parse_number v \<and>
   parse_number [] = float_zero \<and>
   parse_number (ascii ''12,5'') = parse_number (ascii ''12.5'') \<and>
   parse_number (ascii ''12.5'') = Float False 25 (- 1) \<and>
   parse_number (ascii ''1,234.5'') = float_zero \<and>
   parse_number (ascii ''12 kg'') = float_zero"
proof -
  have e: "float_of_str [] = None" by (simp add: parse_defs)
  have 1: "parse_number v =
     (case float_of_str (replace 44 46 v) of None \<Rightarrow> float_zero | Some x \<Rightarrow> x)"
    by (cases "v = []") (auto simp: parse_number_def replace_def e split: option.splits)
  have idem: "replace 44 46 (replace 44 46 v) = replace 44 46 v"
    by (induction v) (simp_all add: replace_def)
  have ne: "(replace 44 46 v = []) = (v = [])" by (simp add: replace_def)
  have 2: "parse_number (replace 44 46 v) = parse_number v"
    by (simp add: parse_number_def idem ne)
  have 3: "parse_number [] = float_zero" by (simp add: parse_number_def)
  have 4: "parse_number (ascii ''12.5'') = Float False 25 (- 1)"
    "parse_number (ascii ''12,5'') = Float False 25 (- 1)"
    "parse_number (ascii ''1,234.5'') = float_zero"
    "parse_number (ascii ''12 kg'') = float_zero"
    by (simp_all add: parse_number_def replace_def parse_defs float_defs)
  show ?thesis using 1 2 3 4 by simp
qed

section \<open>Printing a receipt\<close>

lemma fis_name_not_customer_file:
  "d @ [ascii ''fis_'' @ stamp @ ascii ''.txt''] \<noteq> CUSTOMER_FILE"
proof
  assume "d @ [ascii ''fis_'' @ stamp @ ascii ''.txt''] = CUSTOMER_FILE"
  then have "last (d @ [ascii ''fis_'' @ stamp @ ascii ''.txt'']) = last CUSTOMER_FILE" by simp
  then have "hd (ascii ''fis_'' @ stamp @ ascii ''.txt'') = hd (ascii ''customers.json'')"
    by (simp add: CUSTOMER_FILE_def)
  then show False by (simp add: ascii_def)
qed

lemma save_and_print_frame:
  assumes "p \<noteq> CUSTOMER_FILE"
  shows "customers (save_and_print env txt (p, s)) = customers s \<and>
         fs (save_and_print env txt (p, s)) CUSTOMER_FILE = fs s CUSTOMER_FILE"
proof -
  let ?w = "write_receipt_atomic (write_result env) (rename_ok env) p txt s"
  have c: "customers (snd ?w) = customers s" by (rule write_receipt_atomic_customers)
  have "with_suffix p (ascii ''.tmp'') \<noteq> Inr CUSTOMER_FILE"
    using tmp_not_customer_file[of p CUSTOMER_FILE] by blast
  then have f: "fs (snd ?w) CUSTOMER_FILE = fs s CUSTOMER_FILE"
    using assms by (intro write_receipt_atomic_frame) simp_all
  show ?thesis
    using c f
    by (cases ?w)
       (auto simp: save_and_print_def unexpected_error_def do_print_def
                   clear_form_after_print_def Let_def split: sum.splits)
qed

lemma choose_save_path_frame:
  assumes "choose_save_path env s = Some (p, s1)" and "chosen env \<noteq> Some CUSTOMER_FILE"
  shows "p \<noteq> CUSTOMER_FILE \<and> customers s1 = customers s \<and> fs s1 = fs s"
  using assms fis_name_not_customer_file
  by (auto simp: choose_save_path_def ask_save_path_def split: option.splits if_splits)

lemma choose_save_path_customers:
  assumes "choose_save_path env s = Some (p, s1)"
  shows "customers s1 = customers s"
  using assms
  by (auto simp: choose_save_path_def ask_save_path_def split: option.splits if_splits)

lemma save_and_print_customers:
  "customers (save_and_print env txt (p, s)) = customers s"
proof -
  let ?w = "write_receipt_atomic (write_result env) (rename_ok env) p txt s"
  have c: "customers (snd ?w) = customers s" by (rule write_receipt_atomic_customers)
  show ?thesis
    using c
    by (cases ?w)
       (auto simp: save_and_print_def unexpected_error_def do_print_def
                   clear_form_after_print_def Let_def split: sum.splits)
qed

text \<open>
  Claim C10, amended. A run of \<open>print_receipt\<close> never changes the list of customers
  in memory, whatever the operator types and whatever fails: a customer record built for
  a name that matches nobody goes into the receipt text only. The customers file is
  unchanged as well, unless the path picked in the save dialog is the customers file
  itself.
\<close>

theorem print_receipt_keeps_directory:
  "customers (print_receipt env s) = customers s \<and>
   (chosen env \<noteq> Some CUSTOMER_FILE \<longrightarrow>
      fs (print_receipt env s) CUSTOMER_FILE = fs s CUSTOMER_FILE)"
proof -
  have 1: "customers (print_receipt env s) = customers s"
    using choose_save_path_customers save_and_print_customers
    by (auto simp: print_receipt_def Let_def unexpected_error_def
             split: sum.splits option.splits)
  have 2: "fs (print_receipt env s) CUSTOMER_FILE = fs s CUSTOMER_FILE"
    if "chosen env \<noteq> Some CUSTOMER_FILE"
    using choose_save_path_frame[OF _ that] save_and_print_frame
    by (auto simp: print_receipt_def Let_def unexpected_error_def
             split: sum.splits option.splits)
  show ?thesis using 1 2 by blast
qed

lemma zeynep_form_fields:
  "customers zeynep_form = [Customer (ascii ''Ali'')]"
  "fs zeynep_form = [CUSTOMER_FILE \<mapsto> Json [Customer (ascii ''Ali'')]]"
  "customer_name_var zeynep_form = ascii ''zeynep''"
  "item_type_var zeynep_form = ascii ''ELMA''"
  "piece_count_var zeynep_form = ascii ''3''"
  "weight_var zeynep_form = ascii ''10''"
  "price_per_kg_var zeynep_form = ascii ''5,0''"
  "role_var zeynep_form = PAZARCI_ESNAFI"
  "last_save_dir zeynep_form = None"
  "log zeynep_form = []"
  by (simp_all add: zeynep_form_def refresh_listbox_def empty_app_def)

lemma zeynep_inputs:
  "ascii ''zeynep'' \<noteq> []"
  "strip (ascii ''zeynep'') = ascii ''zeynep''"
  "parse_number (ascii ''10'') = Float False 5 1"
  "parse_number (ascii ''5,0'') = Float False 5 0"
  "role_vat PAZARCI_ESNAFI = Float False 5764607523034235 (- 58)"
  "format_for_display (ascii ''zeynep'') = ascii ''Zeynep''"
  "find_customer_by_name [Customer (ascii ''Ali'')] (ascii ''zeynep'') = Inr None"
proof -
  show "ascii ''zeynep'' \<noteq> []" by (simp add: ascii_def)
  show "strip (ascii ''zeynep'') = ascii ''zeynep''" by (simp add: string_defs)
  show "parse_number (ascii ''10'') = Float False 5 1"
    by (simp add: parse_number_def replace_def parse_defs float_defs)
  show "parse_number (ascii ''5,0'') = Float False 5 0"
    by (simp add: parse_number_def replace_def parse_defs float_defs)
  show "role_vat PAZARCI_ESNAFI = Float False 5764607523034235 (- 58)"
    by (simp add: role_vat_def ROLE_VAT_MAP_def PAZARCI_ESNAFI_def HAL_ICI_ORTACI_def
                  ascii_def float_defs)
  show "format_for_display (ascii ''zeynep'') = ascii ''Zeynep''"
    by (simp add: string_defs)
  show "find_customer_by_name [Customer (ascii ''Ali'')] (ascii ''zeynep'') = Inr None"
    by (simp add: find_defs string_defs difflib_defs Let_def)
qed

lemma zeynep_print:
  assumes "chosen env = Some p" and "now_text env = ascii ''2024-01-02 03:04:05''"
  shows "print_receipt env zeynep_form =
         save_and_print env zeynep_receipt (p, zeynep_form\<lparr>last_save_dir := Some (butlast p)\<rparr>)"
  using assms
  by (simp add: print_receipt_def Let_def zeynep_form_fields zeynep_inputs zeynep_receipt_def
                choose_save_path_def ask_save_path_def)

theorem print_receipt_keeps_directory_witness:
  "chosen (save_as [ascii ''fis.txt'']) \<noteq> Some CUSTOMER_FILE \<and>
   find_customer_by_name (customers zeynep_form) (strip (customer_name_var zeynep_form)) = Inr None \<and>
   customers (print_receipt (save_as [ascii ''fis.txt'']) zeynep_form) = [Customer (ascii ''Ali'')] \<and>
   fs (print_receipt (save_as [ascii ''fis.txt'']) zeynep_form) CUSTOMER_FILE =
     Some (Json [Customer (ascii ''Ali'')]) \<and>
   fs (print_receipt (save_as [ascii ''fis.txt'']) zeynep_form) [ascii ''fis.txt''] =
     Some (Text zeynep_receipt)"
proof -
  have c: "chosen (save_as [ascii ''fis.txt'']) \<noteq> Some CUSTOMER_FILE"
    by (simp add: save_as_def CUSTOMER_FILE_def ascii_def)
  have 1: "customers (print_receipt (save_as [ascii ''fis.txt'']) zeynep_form) =
             [Customer (ascii ''Ali'')]"
    and 2: "fs (print_receipt (save_as [ascii ''fis.txt'']) zeynep_form) CUSTOMER_FILE =
             Some (Json [Customer (ascii ''Ali'')])"
    using print_receipt_keeps_directory [of "save_as [ascii ''fis.txt'']" zeynep_form] c
    by (simp_all add: zeynep_form_fields)
  have 3: "fs (print_receipt (save_as [ascii ''fis.txt'']) zeynep_form) [ascii ''fis.txt''] =
             Some (Text zeynep_receipt)"
    by (simp add: zeynep_print save_as_def save_and_print_def path_defs startswith_def
                  zeynep_form_fields do_print_def clear_form_after_print_def ascii_def
                  CUSTOMER_FILE_def)
  show ?thesis using c 1 2 3 by (simp add: zeynep_form_fields zeynep_inputs)
qed

text \<open>
  Claim C10, as the claim states it: the customers file is unchanged by the whole action.
  When the operator picks \<open>customers.json\<close> in the save dialog, the receipt replaces
  the stored directory.
\<close>

theorem print_receipt_over_customer_file_counterexample:
  "fs zeynep_form CUSTOMER_FILE = Some (Json [Customer (ascii ''Ali'')]) \<and>
   fs (print_receipt (save_as CUSTOMER_FILE) zeynep_form) CUSTOMER_FILE =
     Some (Text zeynep_receipt)"
  by (simp add: zeynep_print save_as_def save_and_print_def path_defs startswith_def
                zeynep_form_fields do_print_def clear_form_after_print_def ascii_def
                CUSTOMER_FILE_def)

end
